theory Spec2Isabelle
  imports Main
begin

section \<open>Python values, strings and exceptions\<close>

text \<open>
  The exceptions the client can raise: the three classes the package declares
  (each carrying its message) and the built-in exceptions its statements can raise.
  \<open>ConnectionError\<close> is what the transport raises when no reply arrives, and
  \<open>RecursionError\<close> what the interpreter raises when nested calls go too deep.
\<close>

datatype error =
    DAAuthException string
  | DAQueryException string
  | DADatasetException string
  | TypeError
  | ValueError
  | IndexError
  | KeyError
  | ZeroDivisionError
  | AttributeError
  | RecursionError
  | ConnectionError

text \<open>
  Values of query options and of \<open>in_\<close> items: strings and integers, the two kinds
  the documentation of the package uses (\<open>deleteddate='null'\<close>, \<open>pagesize=1500\<close>).
\<close>

datatype atom = AStr string | AInt int

definition digit_char :: "nat \<Rightarrow> char" where
  "digit_char d = char_of (48 + d)"

function str_nat :: "nat \<Rightarrow> string" where
  "str_nat n = (if n < 10 then [digit_char n] else str_nat (n div 10) @ [digit_char (n mod 10)])"
  by pat_completeness auto
termination
  by (relation "measure id") auto

declare str_nat.simps [simp del]

definition str_int :: "int \<Rightarrow> string" where
  "str_int i = (if i < 0 then CHR ''-'' # str_nat (nat (- i)) else str_nat (nat i))"

text \<open>Python's \<open>str(v)\<close>.\<close>

fun py_str :: "atom \<Rightarrow> string" where
  "py_str (AStr s) = s"
| "py_str (AInt i) = str_int i"

text \<open>Python's \<open>sub in s\<close> on strings.\<close>

fun contains :: "string \<Rightarrow> string \<Rightarrow> bool" where
  "contains sub [] = (sub = [])"
| "contains sub (c # cs) = (take (length sub) (c # cs) = sub \<or> contains sub cs)"

text \<open>\<open>s.lower()\<close>, on the ASCII letters (a \<open>char\<close> is one byte).\<close>

definition lower_char :: "char \<Rightarrow> char" where
  "lower_char c = (if 65 \<le> (of_char c :: nat) \<and> (of_char c :: nat) \<le> 90
                   then char_of ((of_char c :: nat) + 32) else c)"

definition lower :: "string \<Rightarrow> string" where
  "lower s = map lower_char s"

text \<open>\<open>s.split(sep)\<close> for a one-character separator: never the empty list.\<close>

fun split_on :: "char \<Rightarrow> string \<Rightarrow> string list" where
  "split_on sep [] = [[]]"
| "split_on sep (c # cs) =
     (if c = sep then [] # split_on sep cs
      else (case split_on sep cs of [] \<Rightarrow> [[c]] | w # ws \<Rightarrow> (c # w) # ws))"

text \<open>\<open>sep.join(xs)\<close>.\<close>

fun str_join :: "string \<Rightarrow> string list \<Rightarrow> string" where
  "str_join sep [] = []"
| "str_join sep [x] = x"
| "str_join sep (x # y # ys) = x @ sep @ str_join sep (y # ys)"

text \<open>
  Python compares strings lexicographically by code point; \<open>max(xs)\<close> keeps the first
  of the greatest elements and raises \<open>ValueError\<close> on an empty list.
\<close>

fun str_less :: "string \<Rightarrow> string \<Rightarrow> bool" where
  "str_less [] [] = False"
| "str_less [] (y # ys) = True"
| "str_less (x # xs) [] = False"
| "str_less (x # xs) (y # ys) =
     ((of_char x :: nat) < of_char y \<or> (x = y \<and> str_less xs ys))"

fun py_max :: "string list \<Rightarrow> error + string" where
  "py_max [] = Inl ValueError"
| "py_max (x # xs) = Inr (fold (\<lambda>y m. if str_less m y then y else m) xs x)"

text \<open>
  \<open>re.split(r"in\((.*?)\)", s)[1]\<close>: the captured group of the leftmost match. The
  group is the shortest run of characters other than a newline that a closing
  parenthesis follows; where the pattern matches nowhere, \<open>re.split\<close> returns
  \<open>[s]\<close> and the index raises \<open>IndexError\<close>.
\<close>

fun group_end :: "string \<Rightarrow> string option" where
  "group_end [] = None"
| "group_end (c # cs) =
     (if c = CHR '')'' then Some []
      else if c = CHR 0x0A then None
      else map_option ((#) c) (group_end cs))"

fun in_group :: "string \<Rightarrow> string option" where
  "in_group [] = None"
| "in_group (c # cs) =
     (if take 3 (c # cs) = ''in(''
      then (case group_end (drop 3 (c # cs)) of Some g \<Rightarrow> Some g | None \<Rightarrow> in_group cs)
      else in_group cs)"

section \<open>\<open>_chunks\<close> and \<open>in_\<close>\<close>

text \<open>The slice \<open>xs[i:j]\<close> for \<open>0 \<le> i\<close> and \<open>0 \<le> j\<close>.\<close>

definition slice :: "'a list \<Rightarrow> nat \<Rightarrow> nat \<Rightarrow> 'a list" where
  "slice xs i j = take (j - i) (drop i xs)"

text \<open>
  \<open>_chunks(iterable, n)\<close>, collected into a list as \<open>query\<close> does:
  \<open>chunks_from\<close> is the loop \<open>for ndx in range(0, l, n)\<close> from index \<open>ndx\<close> on,
  and \<open>range\<close> raises \<open>ValueError\<close> when the step is zero.
\<close>

function chunks_from :: "'a list \<Rightarrow> nat \<Rightarrow> nat \<Rightarrow> 'a list list" where
  "chunks_from xs n ndx =
     (if n = 0 \<or> length xs \<le> ndx then []
      else slice xs ndx (min (ndx + n) (length xs)) # chunks_from xs n (ndx + n))"
  by pat_completeness auto
termination
  by (relation "measure (\<lambda>(xs, n, ndx). length xs - ndx)") auto

declare chunks_from.simps [simp del]

definition chunks :: "'a list \<Rightarrow> nat \<Rightarrow> error + 'a list list" where
  "chunks xs n = (if n = 0 then Inl ValueError else Inr (chunks_from xs n 0))"

text \<open>
  The argument of \<open>in_\<close>: a list, or one of the other kinds of value a caller can
  pass (a tuple, a generator, a string, a number, \<open>None\<close>).
\<close>

datatype pyarg =
    PList "atom list"
  | PTuple "atom list"
  | PGenerator "atom list"
  | PString string
  | PNumber int
  | PNone

text \<open>\<open>BaseAPI.in_\<close> (named \<open>in_items\<close> here), a static method: it has the items only, no session.\<close>

fun in_items :: "pyarg \<Rightarrow> error + string" where
  "in_items (PList xs) = Inr (''in('' @ str_join '','' (map py_str xs) @ '')'')"
| "in_items items = Inl TypeError"

text \<open>
  Lines 434 to 436 of \<open>query\<close> for one oversized option value: the values of the
  \<open>in(...)\<close> expression, the chunk size \<open>int(floor(1950 / len(max(values))))\<close>
  and the chunks.
\<close>

definition chunksize_of :: "string list \<Rightarrow> error + nat" where
  "chunksize_of values =
     (case py_max values of
        Inl e \<Rightarrow> Inl e
      | Inr m \<Rightarrow> if length m = 0 then Inl ZeroDivisionError else Inr (1950 div length m))"

definition chunk_plan :: "string \<Rightarrow> error + string list list" where
  "chunk_plan s =
     (case in_group s of
        None \<Rightarrow> Inl IndexError
      | Some g \<Rightarrow>
          (case chunksize_of (split_on CHR '','' g) of
             Inl e \<Rightarrow> Inl e
           | Inr n \<Rightarrow> chunks (split_on CHR '','' g) n))"

type_synonym options = "(string \<times> atom) list"
type_synonym query_chunks = "(string \<times> string list list) option"

text \<open>
  The loop \<open>for field, v in options.items()\<close> (lines 432 to 436): every oversized
  \<open>in(...)\<close> value replaces the plan, so the last one stands.
\<close>

fun scan_options :: "options \<Rightarrow> query_chunks \<Rightarrow> error + query_chunks" where
  "scan_options [] qc = Inr qc"
| "scan_options ((field, v) # rest) qc =
     (if contains ''in('' (py_str v) \<and> 1950 < length (py_str v)
      then (case v of
              AInt i \<Rightarrow> Inl TypeError
            | AStr s \<Rightarrow>
                (case chunk_plan s of
                   Inl e \<Rightarrow> Inl e
                 | Inr cs \<Rightarrow> scan_options rest (Some (field, cs))))
      else scan_options rest qc)"

section \<open>HTTP: headers, requests, replies\<close>

text \<open>
  Header dictionaries of the HTTP library are case-insensitive and keep the order of
  insertion: \<open>hdr_set\<close> is \<open>headers[k] = v\<close> (an entry whose key differs from \<open>k\<close>
  in case only is replaced, in its place), \<open>hdr_get\<close> is the lookup.
\<close>

type_synonym headers = "(string \<times> string) list"

fun hdr_set :: "string \<Rightarrow> string \<Rightarrow> headers \<Rightarrow> headers" where
  "hdr_set k v [] = [(k, v)]"
| "hdr_set k v ((k', v') # hs) =
     (if lower k' = lower k then (k, v) # hs else (k', v') # hdr_set k v hs)"

fun hdr_get :: "string \<Rightarrow> headers \<Rightarrow> string option" where
  "hdr_get k [] = None"
| "hdr_get k ((k', v') # hs) = (if lower k' = lower k then Some v' else hdr_get k hs)"

text \<open>
  The headers of a request sent through the session: the session's default headers,
  overridden by the headers given with the call.
\<close>

fun merge_headers :: "headers \<Rightarrow> headers option \<Rightarrow> headers" where
  "merge_headers sh None = sh"
| "merge_headers sh (Some hs) = fold (\<lambda>(k, v). hdr_set k v) hs sh"

datatype http_method = GET | POST

record request =
  http_method :: http_method
  req_url :: string
  params :: options
  req_headers :: headers
  json_body :: "(string \<times> string) list"

text \<open>
  A record of a dataset is a mapping from field names to values; a response body is a
  JSON array of such objects or a single object.
\<close>

type_synonym row = "(string \<times> atom) list"

datatype json = JArray "row list" | JObject row

text \<open>
  What the server answers to one request: the status, the final URL, the body as text
  and as parsed by \<open>response.json()\<close>, and \<open>response.links\<close>, the parsed \<open>Link\<close>
  header, as a mapping from the relation (\<open>next\<close>, \<open>prev\<close>) to the URL. A response is
  the reply together with the request it answers (\<open>response.request\<close>).
\<close>

record reply =
  status_code :: nat
  resp_url :: string
  resp_text :: string
  body :: json
  resp_links :: "(string \<times> string) list"

record response = reply +
  request :: request

definition mk_response :: "reply \<Rightarrow> request \<Rightarrow> response" where
  "mk_response rp req =
     \<lparr>status_code = status_code rp, resp_url = resp_url rp, resp_text = resp_text rp, body = body rp,
      resp_links = resp_links rp, request = req\<rparr>"

text \<open>\<open>response.ok\<close>: the status is no client error and no server error.\<close>

definition ok :: "'a reply_scheme \<Rightarrow> bool" where
  "ok r = (\<not> (400 \<le> status_code r \<and> status_code r < 600))"

text \<open>\<open>os.path.join(a, b)\<close> on POSIX paths.\<close>

definition path_join :: "string \<Rightarrow> string \<Rightarrow> string" where
  "path_join a b =
     (if take 1 b = ''/'' then b
      else if a = [] \<or> (a \<noteq> [] \<and> last a = CHR ''/'') then a @ b
      else a @ ''/'' @ b)"

text \<open>\<open>base64.b64encode\<close> on the bytes of a string.\<close>

definition b64_alphabet :: string where
  "b64_alphabet = ''ABCDEFGHIJKLMNOPQRSTUVWXYZabcdefghijklmnopqrstuvwxyz0123456789+/''"

definition b64_char :: "nat \<Rightarrow> char" where
  "b64_char n = b64_alphabet ! (n mod 64)"

fun b64_bytes :: "nat list \<Rightarrow> string" where
  "b64_bytes (a # b # c # rest) =
     [b64_char (a div 4), b64_char ((a mod 4) * 16 + b div 16),
      b64_char ((b mod 16) * 4 + c div 64), b64_char (c mod 64)] @ b64_bytes rest"
| "b64_bytes [a, b] =
     [b64_char (a div 4), b64_char ((a mod 4) * 16 + b div 16),
      b64_char ((b mod 16) * 4), CHR ''='']"
| "b64_bytes [a] = [b64_char (a div 4), b64_char ((a mod 4) * 16), CHR ''='', CHR ''='']"
| "b64_bytes [] = []"

definition b64encode :: "string \<Rightarrow> string" where
  "b64encode s = b64_bytes (map of_char s)"

section \<open>The client and its session\<close>

text \<open>
  The credentials tell the two clients apart: \<open>DirectAccessV2\<close> holds a client id
  and a client secret, \<open>DeveloperAPIv3\<close> a secret key. An absent credential (\<open>None\<close>)
  and an empty one are the same to the code (\<open>not self.client_id\<close>): both are the
  empty string here.
\<close>

datatype credentials = V2 string string | V3 string

text \<open>
  The state of a client: its fields (\<open>url\<close>, \<open>retries\<close>, \<open>links\<close>, the credentials,
  \<open>access_token\<close>), the default headers of its session, and the world the session
  talks to: \<open>script\<close> holds the replies the server gives, in order, one to each
  request transmitted (what the hook sees, after the transport's own retries);
  \<open>sent\<close> logs the requests transmitted, oldest first, and \<open>slept\<close> adds up the
  seconds passed in \<open>time.sleep\<close>.
\<close>

record client =
  url :: string
  retries :: int
  links :: "(string \<times> string) list option"
  headers :: headers
  credentials :: credentials
  access_token :: "atom option"
  script :: "reply list"
  sent :: "request list"
  slept :: nat

text \<open>\<open>session.get\<close> and \<open>session.post\<close> prepare the request they send.\<close>

definition prepare ::
  "client \<Rightarrow> http_method \<Rightarrow> string \<Rightarrow> options \<Rightarrow> headers option \<Rightarrow> (string \<times> string) list \<Rightarrow> request"
where
  "prepare c m u ps hs js =
     \<lparr>http_method = m, req_url = u, params = ps,
      req_headers = merge_headers (headers c) hs, json_body = js\<rparr>"

text \<open>\<open>response.json()[name]\<close>.\<close>

fun json_get :: "string \<Rightarrow> json \<Rightarrow> error + atom" where
  "json_get name (JArray rs) = Inl TypeError"
| "json_get name (JObject fs) =
     (case map_of fs name of None \<Rightarrow> Inl KeyError | Some v \<Rightarrow> Inr v)"

text \<open>
  \<open>session.send\<close>, the response hook \<open>_check_response\<close> and \<open>get_access_token\<close>
  call one another: the session runs the hooks of a prepared request on every response
  to it, also on the response to a request that the hook itself sends again, and
  \<open>get_access_token\<close> posts through the same session. The first argument bounds the
  nesting of \<open>send\<close>, as the interpreter's recursion limit does; where the script has
  no reply left the transport raises \<open>ConnectionError\<close>.
\<close>

fun send :: "nat \<Rightarrow> client \<Rightarrow> request \<Rightarrow> (error + response) \<times> client"
and check_response :: "nat \<Rightarrow> client \<Rightarrow> response \<Rightarrow> (error + response option) \<times> client"
and get_access_token :: "nat \<Rightarrow> client \<Rightarrow> (error + json) \<times> client"
where
  "send 0 c req = (Inl RecursionError, c)"
| "send (Suc d) c req =
     (case script c of
        [] \<Rightarrow> (Inl ConnectionError, c\<lparr>sent := sent c @ [req]\<rparr>)
      | rp # rest \<Rightarrow>
          (case check_response d (c\<lparr>script := rest, sent := sent c @ [req]\<rparr>)
                  (mk_response rp req) of
             (Inl e, c') \<Rightarrow> (Inl e, c')
           | (Inr None, c') \<Rightarrow> (Inr (mk_response rp req), c')
           | (Inr (Some r), c') \<Rightarrow> (Inr r, c')))"
| "check_response d c resp =
     (if ok resp then (Inr None, c)
      else if status_code resp = 400 then
        (if contains ''tokens'' (resp_url resp)
         then (Inl (DAAuthException (''Error getting token. Code: '' @ str_nat (status_code resp)
                      @ '' Message: '' @ resp_text resp)), c)
         else (Inl (DAQueryException (resp_text resp)), c))
      else if status_code resp = 401 then
        (case get_access_token d c of
           (Inl e, c') \<Rightarrow> (Inl e, c')
         | (Inr j, c') \<Rightarrow>
             (case hdr_get ''Authorization'' (headers c') of
                None \<Rightarrow> (Inl KeyError, c')
              | Some a \<Rightarrow>
                  (case send d c' ((request resp)
                          \<lparr>req_headers := hdr_set ''Authorization'' a (req_headers (request resp))\<rparr>) of
                     (Inl e, c'') \<Rightarrow> (Inl e, c'')
                   | (Inr r, c'') \<Rightarrow> (Inr (Some r), c''))))
      else if status_code resp = 403 \<and> contains ''tokens'' (resp_url resp) then
        (case send d (c\<lparr>retries := retries c - 1, slept := slept c + 60\<rparr>) (request resp) of
           (Inl e, c') \<Rightarrow> (Inl e, c')
         | (Inr r, c') \<Rightarrow> (Inr (Some r), c'))
      else if status_code resp = 404 then
        (Inl (DADatasetException ''Invalid dataset name provided''), c)
      else (Inr None, c))"
| "get_access_token d c =
     (case credentials c of
        V2 client_id client_secret \<Rightarrow>
          (if client_id = [] \<or> client_secret = []
           then (Inl (DAAuthException
                   ''CLIENT_ID and CLIENT_SECRET are required to generate an access token''), c)
           else
             (case send d
                     (c\<lparr>headers := hdr_set ''Content-Type'' ''application/x-www-form-urlencoded''
                          (hdr_set ''Authorization''
                             (''Basic '' @ b64encode (client_id @ '':'' @ client_secret))
                             (headers c))\<rparr>)
                     (prepare
                        (c\<lparr>headers := hdr_set ''Content-Type'' ''application/x-www-form-urlencoded''
                          (hdr_set ''Authorization''
                             (''Basic '' @ b64encode (client_id @ '':'' @ client_secret))
                             (headers c))\<rparr>)
                        POST (path_join (url c) ''tokens'')
                        [(''grant_type'', AStr ''client_credentials'')] None []) of
                (Inl e, c') \<Rightarrow> (Inl e, c')
              | (Inr resp, c') \<Rightarrow>
                  (case json_get ''access_token'' (body resp) of
                     Inl e \<Rightarrow> (Inl e, c')
                   | Inr tok \<Rightarrow>
                       (Inr (body resp),
                        c'\<lparr>access_token := Some tok,
                           headers := hdr_set ''Authorization'' (''bearer '' @ py_str tok)
                                        (headers c')\<rparr>))))
      | V3 secret_key \<Rightarrow>
          (if secret_key = []
           then (Inl (DAAuthException ''SECRET_KEY is required to generate an access token''), c)
           else
             (case send d
                     (c\<lparr>headers := hdr_set ''Content-Type'' ''application/json'' (headers c)\<rparr>)
                     (prepare
                        (c\<lparr>headers := hdr_set ''Content-Type'' ''application/json'' (headers c)\<rparr>)
                        POST (path_join (url c) ''tokens'') [] None
                        [(''secretKey'', secret_key)]) of
                (Inl e, c') \<Rightarrow> (Inl e, c')
              | (Inr resp, c') \<Rightarrow>
                  (case json_get ''token'' (body resp) of
                     Inl e \<Rightarrow> (Inl e, c')
                   | Inr tok \<Rightarrow>
                       (Inr (body resp),
                        c'\<lparr>access_token := Some tok,
                           headers := hdr_set ''Authorization'' (''bearer '' @ py_str tok)
                                        (headers c')\<rparr>)))))"

section \<open>\<open>BaseAPI.query\<close>\<close>

text \<open>Truth of \<open>self.links\<close>: neither \<open>None\<close> nor an empty dictionary.\<close>

definition links_truthy :: "(string \<times> string) list option \<Rightarrow> bool" where
  "links_truthy l = (case l of None \<Rightarrow> False | Some kvs \<Rightarrow> kvs \<noteq> [])"

text \<open>\<open>d[k] = v\<close> and removing a key, on a dictionary kept in insertion order.\<close>

fun dict_set :: "string \<Rightarrow> 'v \<Rightarrow> (string \<times> 'v) list \<Rightarrow> (string \<times> 'v) list" where
  "dict_set k v [] = [(k, v)]"
| "dict_set k v ((k', v') # kvs) =
     (if k' = k then (k, v) # kvs else (k', v') # dict_set k v kvs)"

definition dict_pop :: "string \<Rightarrow> (string \<times> 'v) list \<Rightarrow> (string \<times> 'v) list" where
  "dict_pop k kvs = filter (\<lambda>kv. fst kv \<noteq> k) kvs"

text \<open>\<open>query_chunks and query_chunks[1]\<close>: a plan with a subset still to send.\<close>

fun pending :: "query_chunks \<Rightarrow> bool" where
  "pending (Some (field, ch # rest)) = True"
| "pending qc = False"

text \<open>
  The batch of a response: \<open>records = response.json()\<close>, a single object taken as
  a batch of one.
\<close>

fun records_of :: "json \<Rightarrow> row list" where
  "records_of (JArray rs) = rs"
| "records_of (JObject r) = [r]"

text \<open>
  Lines 441 to 447: the request of one turn of the loop, with the options and the plan
  as the turn leaves them. With a continuation link the request goes to
  \<open>self.url[:-1] + self.links["next"]["url"]\<close>; without one the next subset of the plan,
  if any, is popped and written into the options.
\<close>

definition next_request ::
  "client \<Rightarrow> string \<Rightarrow> options \<Rightarrow> query_chunks \<Rightarrow> error + (request \<times> options \<times> query_chunks)"
where
  "next_request c query_url options qc =
     (if links_truthy (links c) then
        (case map_of (case links c of None \<Rightarrow> [] | Some kvs \<Rightarrow> kvs) ''next'' of
           None \<Rightarrow> Inl KeyError
         | Some u \<Rightarrow> Inr (prepare c GET (butlast (url c) @ u) [] None [], options, qc))
      else
        (case qc of
           Some (field, ch # rest) \<Rightarrow>
             (case in_items (PList (map AStr ch)) of
                Inl e \<Rightarrow> Inl e
              | Inr s \<Rightarrow>
                  Inr (prepare c GET query_url (dict_set field (AStr s) options) None [],
                       dict_set field (AStr s) options, Some (field, rest)))
         | _ \<Rightarrow> Inr (prepare c GET query_url options None [], options, qc)))"

text \<open>
  Every nested \<open>send\<close> takes its reply from the script, so a call that returns a
  response leaves the script shorter: the loop of \<open>query\<close> ends.
\<close>

lemma send_consumes_aux:
  "(\<forall>c req res c'. send d c req = (res, c') \<longrightarrow>
        length (script c') \<le> length (script c) \<and>
        (\<forall>r. res = Inr r \<longrightarrow> length (script c') < length (script c))) \<and>
   (\<forall>c res c'. get_access_token d c = (res, c') \<longrightarrow> length (script c') \<le> length (script c)) \<and>
   (\<forall>c resp res c'. check_response d c resp = (res, c') \<longrightarrow>
        length (script c') \<le> length (script c))"
proof (induction d)
  case 0
  have a: "\<forall>c req res c'. send 0 c req = (res, c') \<longrightarrow>
        length (script c') \<le> length (script c) \<and>
        (\<forall>r. res = Inr r \<longrightarrow> length (script c') < length (script c))"
    by auto
  have g: "\<forall>c res c'. get_access_token 0 c = (res, c') \<longrightarrow>
        length (script c') \<le> length (script c)"
    by (auto split: credentials.splits if_splits)
  have "\<forall>c resp res c'. check_response 0 c resp = (res, c') \<longrightarrow>
        length (script c') \<le> length (script c)"
    by (auto split: credentials.splits if_splits)
  with a g show ?case by blast
next
  case (Suc d)
  then have sd: "\<And>c req res c'. send d c req = (res, c') \<Longrightarrow>
        length (script c') \<le> length (script c)"
    and cd: "\<And>c resp res c'. check_response d c resp = (res, c') \<Longrightarrow>
        length (script c') \<le> length (script c)"
    by blast+
  have a: "length (script c') \<le> length (script c) \<and>
        (\<forall>r. res = Inr r \<longrightarrow> length (script c') < length (script c))"
    if h: "send (Suc d) c req = (res, c')" for c req res c'
  proof (cases "script c")
    case Nil
    with h show ?thesis by auto
  next
    case (Cons rp rest)
    obtain x c1 where k: "check_response d (c\<lparr>script := rest, sent := sent c @ [req]\<rparr>)
                            (mk_response rp req) = (x, c1)"
      by (cases "check_response d (c\<lparr>script := rest, sent := sent c @ [req]\<rparr>)
                   (mk_response rp req)") auto
    from cd [OF k] have l: "length (script c1) \<le> length rest" by simp
    from h Cons k have "c' = c1"
      by (simp del: check_response.simps split: sum.splits option.splits)
    with l Cons show ?thesis by simp
  qed
  have g: "length (script c') \<le> length (script c)"
    if h: "get_access_token (Suc d) c = (res, c')" for c res c'
  proof (cases "credentials c")
    case (V2 cid sec)
    show ?thesis
    proof (cases "cid = [] \<or> sec = []")
      case True
      with h V2 show ?thesis by auto
    next
      case False
      let ?c1 = "c\<lparr>headers := hdr_set ''Content-Type'' ''application/x-www-form-urlencoded''
                   (hdr_set ''Authorization'' (''Basic '' @ b64encode (cid @ '':'' @ sec))
                      (headers c))\<rparr>"
      let ?rq = "prepare ?c1 POST (path_join (url c) ''tokens'')
                   [(''grant_type'', AStr ''client_credentials'')] None []"
      obtain x c1 where k: "send (Suc d) ?c1 ?rq = (x, c1)"
        by (cases "send (Suc d) ?c1 ?rq") auto
      from a [OF k] have l: "length (script c1) \<le> length (script c)" by simp
      from h V2 False k have "script c' = script c1"
        by (auto simp del: send.simps split: sum.splits)
      with l show ?thesis by simp
    qed
  next
    case (V3 key)
    show ?thesis
    proof (cases "key = []")
      case True
      with h V3 show ?thesis by auto
    next
      case False
      let ?c1 = "c\<lparr>headers := hdr_set ''Content-Type'' ''application/json'' (headers c)\<rparr>"
      let ?rq = "prepare ?c1 POST (path_join (url c) ''tokens'') [] None [(''secretKey'', key)]"
      obtain x c1 where k: "send (Suc d) ?c1 ?rq = (x, c1)"
        by (cases "send (Suc d) ?c1 ?rq") auto
      from a [OF k] have l: "length (script c1) \<le> length (script c)" by simp
      from h V3 False k have "script c' = script c1"
        by (auto simp del: send.simps split: sum.splits)
      with l show ?thesis by simp
    qed
  qed
  have k: "length (script c') \<le> length (script c)"
    if h: "check_response (Suc d) c resp = (res, c')" for c resp res c'
  proof -
    consider (ok) "ok resp"
      | (s400) "\<not> ok resp" "status_code resp = 400"
      | (s401) "\<not> ok resp" "status_code resp = 401"
      | (s403) "\<not> ok resp" "status_code resp \<noteq> 400" "status_code resp \<noteq> 401"
               "status_code resp = 403 \<and> contains ''tokens'' (resp_url resp)"
      | (other) "\<not> ok resp" "status_code resp \<noteq> 400" "status_code resp \<noteq> 401"
               "\<not> (status_code resp = 403 \<and> contains ''tokens'' (resp_url resp))"
      by blast
    then show ?thesis
    proof cases
      case ok
      with h show ?thesis by simp
    next
      case s400
      with h show ?thesis by (auto split: if_splits)
    next
      case s401
      obtain x c1 where t: "get_access_token (Suc d) c = (x, c1)"
        by (cases "get_access_token (Suc d) c") auto
      from g [OF t] have l1: "length (script c1) \<le> length (script c)" .
      show ?thesis
      proof (cases x)
        case (Inl e)
        with h s401 t l1 show ?thesis by (simp del: get_access_token.simps)
      next
        case (Inr j)
        show ?thesis
        proof (cases "hdr_get ''Authorization'' (headers c1)")
          case None
          with h s401 t l1 Inr show ?thesis by (simp del: get_access_token.simps)
        next
          case (Some au)
          let ?rq = "(request resp)\<lparr>req_headers :=
                        hdr_set ''Authorization'' au (req_headers (request resp))\<rparr>"
          obtain y c2 where u: "send (Suc d) c1 ?rq = (y, c2)"
            by (cases "send (Suc d) c1 ?rq") auto
          from a [OF u] have l2: "length (script c2) \<le> length (script c1)" by simp
          from h s401 t Inr Some u have "c' = c2"
            by (simp del: get_access_token.simps send.simps split: sum.splits)
          with l1 l2 show ?thesis by simp
        qed
      qed
    next
      case s403
      let ?c1 = "c\<lparr>retries := retries c - 1, slept := slept c + 60\<rparr>"
      obtain y c2 where u: "send (Suc d) ?c1 (request resp) = (y, c2)"
        by (cases "send (Suc d) ?c1 (request resp)") auto
      from a [OF u] have l2: "length (script c2) \<le> length (script c)" by simp
      from h s403 u have "c' = c2"
        by (simp del: send.simps split: sum.splits)
      with l2 show ?thesis by simp
    next
      case other
      with h show ?thesis by (auto split: if_splits)
    qed
  qed
  from a g k show ?case by blast
qed

lemma send_consumes:
  "send d c req = (Inr r, c') \<Longrightarrow> length (script c') < length (script c)"
  using send_consumes_aux [of d] by blast

text \<open>
  The loop of \<open>query\<close> (lines 440 to 473). The result is the list of the records the
  generator yields, in order, with the way it ends (\<open>None\<close> when it is exhausted,
  the exception when it raises) and the client as it leaves it. \<open>paging\<close> is the
  option popped at line 438.
\<close>

function query_loop ::
  "nat \<Rightarrow> client \<Rightarrow> string \<Rightarrow> options \<Rightarrow> query_chunks \<Rightarrow> atom \<Rightarrow> row list
     \<Rightarrow> (row list \<times> error option) \<times> client"
where
  "query_loop d c query_url options qc paging acc =
     (case next_request c query_url options qc of
        Inl e \<Rightarrow> ((acc, Some e), c)
      | Inr (req, options', qc') \<Rightarrow>
          (case send d c req of
             (Inl e, c1) \<Rightarrow> ((acc, Some e), c1)
           | (Inr resp, c1) \<Rightarrow>
               (if \<not> ok resp then
                  ((acc, Some (DAQueryException (''Non-200 response: ''
                      @ str_nat (status_code resp) @ '' '' @ resp_text resp))), c1)
                else if records_of (body resp) = [] then
                  (if pending qc'
                   then query_loop d (c1\<lparr>links := None\<rparr>) query_url options' qc' paging acc
                   else ((acc, None), c1\<lparr>links := None\<rparr>))
                else if map_of (resp_links resp) ''next'' = None then
                  (if links c1 = None then ((acc @ records_of (body resp), None), c1)
                   else (case paging of
                           AInt i \<Rightarrow> ((acc @ records_of (body resp), Some AttributeError), c1)
                         | AStr p \<Rightarrow>
                             (if lower p = ''false''
                              then ((acc @ records_of (body resp), None), c1)
                              else query_loop d c1 query_url options' qc' paging
                                     (acc @ records_of (body resp)))))
                else
                  (case paging of
                     AInt i \<Rightarrow> ((acc @ records_of (body resp), Some AttributeError),
                                c1\<lparr>links := Some (resp_links resp)\<rparr>)
                   | AStr p \<Rightarrow>
                       (if lower p = ''false''
                        then ((acc @ records_of (body resp), None),
                              c1\<lparr>links := Some (resp_links resp)\<rparr>)
                        else query_loop d (c1\<lparr>links := Some (resp_links resp)\<rparr>) query_url
                               options' qc' paging (acc @ records_of (body resp)))))))"
  by pat_completeness auto
termination
  by (relation "measure (\<lambda>(d, c, query_url, options, qc, paging, acc). length (script c))")
     (auto dest: send_consumes [OF sym])

declare query_loop.simps [simp del]

text \<open>
  \<open>query\<close>, consumed to its end: the scan for an oversized filter (lines 431 to 436),
  the \<open>paging\<close> option popped (line 438), then the loop.
\<close>

definition query ::
  "nat \<Rightarrow> client \<Rightarrow> string \<Rightarrow> options \<Rightarrow> (row list \<times> error option) \<times> client"
where
  "query d c dataset options =
     (case scan_options options None of
        Inl e \<Rightarrow> (([], Some e), c)
      | Inr qc \<Rightarrow>
          query_loop d c (path_join (url c) dataset) (dict_pop ''paging'' options) qc
            (case map_of options ''paging'' of None \<Rightarrow> AStr ''true'' | Some p \<Rightarrow> p) [])"

section \<open>The two clients\<close>

text \<open>
  \<open>BaseAPI.__init__\<close> creates the session: the default headers of the HTTP library
  with the \<open>User-Agent\<close> replaced. The last argument is the world the session will
  talk to.
\<close>

definition default_headers :: headers where
  "default_headers =
     [(''User-Agent'', ''enverus-developer-api''), (''Accept-Encoding'', ''gzip, deflate''),
      (''Accept'', ''*/*''), (''Connection'', ''keep-alive'')]"

definition new_client ::
  "string \<Rightarrow> int \<Rightarrow> credentials \<Rightarrow> (string \<times> string) list option \<Rightarrow> atom option
     \<Rightarrow> reply list \<Rightarrow> client"
where
  "new_client u n cr l tok world =
     \<lparr>url = u, retries = n, links = l, headers = default_headers, credentials = cr,
      access_token = tok, script = world, sent = [], slept = 0\<rparr>"

text \<open>\<open>if self.access_token\<close>: a token that is given and not empty.\<close>

fun given_token :: "atom option \<Rightarrow> atom option" where
  "given_token None = None"
| "given_token (Some (AStr s)) = (if s = [] then None else Some (AStr s))"
| "given_token (Some (AInt i)) = (if i = 0 then None else Some (AInt i))"

text \<open>
  \<open>DirectAccessV2.__init__\<close> and \<open>DeveloperAPIv3.__init__\<close>: the fields, with
  \<open>self.links = links\<close>, then the token given or a first call of
  \<open>get_access_token\<close>.
\<close>

definition DirectAccessV2 ::
  "nat \<Rightarrow> string \<Rightarrow> string \<Rightarrow> int \<Rightarrow> (string \<times> string) list option \<Rightarrow> atom option
     \<Rightarrow> reply list \<Rightarrow> error + client"
where
  "DirectAccessV2 d client_id client_secret n l tok world =
     (case given_token tok of
        Some t \<Rightarrow>
          Inr ((new_client ''https://di-api.drillinginfo.com/v2/direct-access/'' n
                  (V2 client_id client_secret) l tok world)
               \<lparr>headers := hdr_set ''Authorization'' (''bearer '' @ py_str t) default_headers\<rparr>)
      | None \<Rightarrow>
          (case get_access_token d
                  (new_client ''https://di-api.drillinginfo.com/v2/direct-access/'' n
                     (V2 client_id client_secret) l tok world) of
             (Inl e, c) \<Rightarrow> Inl e
           | (Inr j, c) \<Rightarrow>
               (case json_get ''access_token'' j of
                  Inl e \<Rightarrow> Inl e
                | Inr t \<Rightarrow> Inr (c\<lparr>access_token := Some t\<rparr>))))"

definition DeveloperAPIv3 ::
  "nat \<Rightarrow> string \<Rightarrow> int \<Rightarrow> (string \<times> string) list option \<Rightarrow> atom option
     \<Rightarrow> reply list \<Rightarrow> error + client"
where
  "DeveloperAPIv3 d secret_key n l tok world =
     (case given_token tok of
        Some t \<Rightarrow>
          Inr ((new_client ''https://api.enverus.com/v3/direct-access/'' n
                  (V3 secret_key) l tok world)
               \<lparr>headers := hdr_set ''Authorization'' (''bearer '' @ py_str t) default_headers\<rparr>)
      | None \<Rightarrow>
          (case get_access_token d
                  (new_client ''https://api.enverus.com/v3/direct-access/'' n
                     (V3 secret_key) l tok world) of
             (Inl e, c) \<Rightarrow> Inl e
           | (Inr j, c) \<Rightarrow>
               (case json_get ''token'' j of
                  Inl e \<Rightarrow> Inl e
                | Inr t \<Rightarrow> Inr (c\<lparr>access_token := Some t\<rparr>))))"

section \<open>\<open>DeveloperAPIv3\<close>: the headers of a query\<close>





section \<open>Strings: facts used below\<close>

lemma contains_in_prefix: "contains ''in('' (''in('' @ rest)"
  by simp

lemma group_end_closed:
  "CHR '')'' \<notin> set g \<Longrightarrow> CHR 0x0A \<notin> set g \<Longrightarrow> group_end (g @ CHR '')'' # rest) = Some g"
  by (induction g) auto

lemma in_group_prefix:
  "CHR '')'' \<notin> set g \<Longrightarrow> CHR 0x0A \<notin> set g \<Longrightarrow> in_group (''in('' @ g @ '')'' @ rest) = Some g"
  using group_end_closed [of g rest] by simp

lemma split_on_no_sep: "sep \<notin> set v \<Longrightarrow> split_on sep v = [v]"
  by (induction v) auto

lemma split_on_append:
  "sep \<notin> set v \<Longrightarrow> split_on sep (v @ sep # rest) = v # split_on sep rest"
  by (induction v) auto

lemma split_on_join:
  "vs \<noteq> [] \<Longrightarrow> \<forall>v \<in> set vs. sep \<notin> set v \<Longrightarrow> split_on sep (str_join [sep] vs) = vs"
proof (induction "[sep]" vs rule: str_join.induct)
  case 1
  then show ?case by simp
next
  case (2 x)
  then show ?case by (simp add: split_on_no_sep)
next
  case (3 x y ys)
  then show ?case by (simp add: split_on_append)
qed

lemma set_str_join: "set (str_join sep vs) \<subseteq> set sep \<union> \<Union> (set ` set vs)"
  by (induction sep vs rule: str_join.induct) auto

lemma length_str_join:
  "length (str_join sep vs) = sum_list (map length vs) + (length vs - 1) * length sep"
  by (induction sep vs rule: str_join.induct) auto

lemma str_less_irrefl: "\<not> str_less s s"
  by (induction s) auto

lemma fold_max_replicate:
  "\<not> str_less m y \<Longrightarrow> fold (\<lambda>y m. if str_less m y then y else m) (replicate n y) m = m"
  by (induction n) auto

lemma py_max_replicate: "\<not> str_less x y \<Longrightarrow> py_max (x # replicate n y) = Inr x"
  using fold_max_replicate [of x y n] by (simp del: fold_replicate)

lemma py_str_AStr: "py_str \<circ> AStr = id"
  by (rule ext) simp

lemma map_py_str_AStr: "map py_str (map AStr vs) = vs"
  by (simp add: py_str_AStr)

section \<open>Chunking\<close>

lemma concat_chunks_from: "0 < n \<Longrightarrow> concat (chunks_from xs n ndx) = drop ndx xs"
proof (induction xs n ndx rule: chunks_from.induct)
  case (1 xs n ndx)
  show ?case
  proof (cases "length xs \<le> ndx")
    case True
    then show ?thesis by (simp add: chunks_from.simps [of xs n ndx])
  next
    case False
    with "1.prems" have ih: "concat (chunks_from xs n (ndx + n)) = drop (ndx + n) xs"
      using "1.IH" by simp
    have sl: "slice xs ndx (min (ndx + n) (length xs)) = take n (drop ndx xs)"
      using False by (simp add: slice_def min_def)
    have dd: "drop (ndx + n) xs = drop n (drop ndx xs)"
      by (simp add: add.commute)
    have "concat (chunks_from xs n ndx) =
            slice xs ndx (min (ndx + n) (length xs)) @ concat (chunks_from xs n (ndx + n))"
      using False "1.prems" by (simp add: chunks_from.simps [of xs n ndx])
    also have "\<dots> = take n (drop ndx xs) @ drop n (drop ndx xs)"
      by (simp only: sl ih dd)
    also have "\<dots> = drop ndx xs"
      by (rule append_take_drop_id)
    finally show ?thesis .
  qed
qed

lemma concat_chunks: "chunks xs n = Inr cs \<Longrightarrow> concat cs = xs"
  using concat_chunks_from [of n xs 0] by (auto simp: chunks_def split: if_splits)

lemma chunks_from_step:
  "0 < n \<Longrightarrow> ndx < length xs \<Longrightarrow>
     chunks_from xs n ndx = take n (drop ndx xs) # chunks_from xs n (ndx + n)"
  by (subst chunks_from.simps) (simp add: slice_def min_def)

lemma chunks_from_end: "length xs \<le> ndx \<Longrightarrow> chunks_from xs n ndx = []"
  by (subst chunks_from.simps) simp

lemma chunks_from_all:
  "0 < length xs \<Longrightarrow> length xs \<le> n \<Longrightarrow> chunks_from xs n 0 = [xs]"
proof -
  assume a: "0 < length xs" "length xs \<le> n"
  then have "0 < n" by linarith
  with a show ?thesis
    by (simp add: chunks_from.simps [of xs n 0] chunks_from.simps [of xs n n] slice_def)
qed

lemma chunk_plan_values:
  "chunk_plan s = Inr cs \<Longrightarrow> \<exists>g. in_group s = Some g \<and> concat cs = split_on CHR '','' g"
  by (auto simp: chunk_plan_def concat_chunks split: option.splits sum.splits)

lemma scan_options_source:
  "scan_options opts qc = Inr (Some (field, cs)) \<Longrightarrow>
     qc = Some (field, cs) \<or> (\<exists>s. (field, AStr s) \<in> set opts \<and> chunk_plan s = Inr cs)"
proof (induction opts qc rule: scan_options.induct)
  case (1 qc)
  then show ?case by simp
next
  case (2 field' v rest qc)
  show ?case
  proof (cases "contains ''in('' (py_str v) \<and> 1950 < length (py_str v)")
    case False
    with "2.prems" have "scan_options rest qc = Inr (Some (field, cs))" by simp
    with "2.IH"(2) False show ?thesis by auto
  next
    case True
    show ?thesis
    proof (cases v)
      case (AInt i)
      with True "2.prems" show ?thesis by simp
    next
      case (AStr s)
      show ?thesis
      proof (cases "chunk_plan s")
        case (Inl e)
        with True AStr "2.prems" show ?thesis by simp
      next
        case (Inr cs')
        with True AStr "2.prems"
        have "scan_options rest (Some (field', cs')) = Inr (Some (field, cs))"
          by simp
        with "2.IH"(1) [OF True AStr Inr]
        have "Some (field', cs') = Some (field, cs) \<or>
              (\<exists>s. (field, AStr s) \<in> set rest \<and> chunk_plan s = Inr cs)"
          by blast
        with AStr Inr show ?thesis by auto
      qed
    qed
  qed
qed

text \<open>
  Whenever \<open>query\<close> builds a chunk plan for a field, the field holds a string with
  an \<open>in(...)\<close> group, and the chunks of the plan, concatenated in order, are the
  comma-separated values of the group that the regular expression of line 434 captures.
\<close>

lemma plan_covers_captured_group:
  "scan_options opts None = Inr (Some (field, cs)) \<Longrightarrow>
     \<exists>s g. (field, AStr s) \<in> set opts \<and> in_group s = Some g \<and>
           concat cs = split_on CHR '','' g"
proof -
  assume "scan_options opts None = Inr (Some (field, cs))"
  then obtain s where s: "(field, AStr s) \<in> set opts" "chunk_plan s = Inr cs"
    using scan_options_source [of opts None field cs] by auto
  from chunk_plan_values [OF s(2)] s(1) show ?thesis by blast
qed

text \<open>
  An oversized filter: three values of 975 characters each, serialised by \<open>in_\<close>
  to 2931 characters.
\<close>

definition long_value :: string where
  "long_value = replicate 975 CHR ''7''"

definition long_filter :: string where
  "long_filter = ''in('' @ str_join '','' [long_value, long_value, long_value] @ '')''"

lemma long_value_facts:
  "length long_value = 975" "set long_value = {CHR ''7''}"
  by (simp_all add: long_value_def)

lemma length_long_filter: "length long_filter = 2931"
  by (simp add: long_filter_def long_value_facts)

lemma in_group_long_filter:
  "in_group long_filter = Some (str_join '','' [long_value, long_value, long_value])"
proof -
  have "CHR '')'' \<notin> set (str_join '','' [long_value, long_value, long_value])"
       "CHR 0x0A \<notin> set (str_join '','' [long_value, long_value, long_value])"
    by (simp_all add: long_value_facts)
  from in_group_prefix [OF this, of "[]"] show ?thesis
    by (simp add: long_filter_def)
qed

lemma chunk_plan_long_filter:
  "chunk_plan long_filter = Inr [[long_value, long_value], [long_value]]"
proof -
  have sp: "split_on CHR '','' (str_join '','' [long_value, long_value, long_value])
              = [long_value, long_value, long_value]"
    by (rule split_on_join) (simp_all add: long_value_facts)
  have mx: "py_max [long_value, long_value, long_value] = Inr long_value"
    using py_max_replicate [OF str_less_irrefl, of long_value 2]
    by (simp add: numeral_2_eq_2)
  have cz: "chunksize_of [long_value, long_value, long_value] = Inr 2"
    by (simp add: chunksize_of_def mx long_value_facts del: py_max.simps)
  have s0: "chunks_from [long_value, long_value, long_value] 2 0 =
              take 2 (drop 0 [long_value, long_value, long_value]) #
              chunks_from [long_value, long_value, long_value] 2 (0 + 2)"
    by (rule chunks_from_step) simp_all
  have s2: "chunks_from [long_value, long_value, long_value] 2 (0 + 2) =
              take 2 (drop (0 + 2) [long_value, long_value, long_value]) #
              chunks_from [long_value, long_value, long_value] 2 (0 + 2 + 2)"
    by (rule chunks_from_step) simp_all
  have s4: "chunks_from [long_value, long_value, long_value] 2 (0 + 2 + 2) = []"
    by (rule chunks_from_end) simp
  have c0: "chunks_from [long_value, long_value, long_value] 2 0
              = [[long_value, long_value], [long_value]]"
    unfolding s0 s2 s4 by simp
  have ch: "chunks [long_value, long_value, long_value] 2
              = Inr [[long_value, long_value], [long_value]]"
    by (simp add: chunks_def c0)
  show ?thesis
    by (simp add: chunk_plan_def in_group_long_filter sp cz ch
          del: py_max.simps str_join.simps)
qed

lemma small_option_not_scanned: "\<not> contains ''in('' (py_str (AInt 2))"
  by code_simp

lemma scan_long_filter:
  "scan_options [(''pagesize'', AInt 2), (''api'', AStr long_filter)] None
     = Inr (Some (''api'', [[long_value, long_value], [long_value]]))"
proof -
  have "contains ''in('' long_filter"
    unfolding long_filter_def by (rule contains_in_prefix)
  then show ?thesis
    using small_option_not_scanned
    by (simp add: chunk_plan_long_filter length_long_filter del: contains.simps)
qed

lemma plan_covers_captured_group_example:
  "scan_options [(''pagesize'', AInt 2), (''api'', AStr long_filter)] None
     = Inr (Some (''api'', [[long_value, long_value], [long_value]])) \<and>
   (\<exists>s g. (''api'', AStr s) \<in> set [(''pagesize'', AInt 2), (''api'', AStr long_filter)] \<and>
          in_group s = Some g \<and>
          concat [[long_value, long_value], [long_value]] = split_on CHR '','' g)"
  using scan_long_filter plan_covers_captured_group [OF scan_long_filter] by blast

text \<open>
  Claim C9, as the code has it. Given a list, \<open>in_\<close> returns \<open>in(v1,v2,...)\<close>, the
  stringified items joined by commas in the order of the list; given anything that is
  not a list, be it another ordered sequence (a tuple), a generator, a single string, a
  number or \<open>None\<close>, it raises \<open>TypeError\<close>. It is a function of its argument
  alone: it has no session to send a request with.
\<close>

theorem in_items_list_or_type_error:
  "in_items (PList xs) = Inr (''in('' @ str_join '','' (map py_str xs) @ '')'') \<and>
   ((\<forall>ys. items \<noteq> PList ys) \<longrightarrow> in_items items = Inl TypeError)"
  by (cases items) simp_all

theorem in_items_list_or_type_error_witness:
  "in_items (PList [AStr ''42071'', AInt 7, AInt (- 3)]) = Inr ''in(42071,7,-3)'' \<and>
   (\<forall>ys. PString ''42071'' \<noteq> PList ys) \<and>
   in_items (PString ''42071'') = Inl TypeError"
proof -
  have e: "str_int 7 = ''7''" "str_int (- 3) = ''-3''"
    by code_simp+
  show ?thesis
    using in_items_list_or_type_error [of "[AStr ''42071'', AInt 7, AInt (- 3)]" "PString ''42071''"] e
    by simp
qed

text \<open>
  The claim C9 as the specification states it fails at a tuple: an ordered sequence of
  values, for which \<open>in_\<close> raises \<open>TypeError\<close> instead of returning
  \<open>in(42071,42072)\<close>, since line 257 tests \<open>isinstance(items, list)\<close>.
\<close>

theorem in_items_tuple_type_error:
  "in_items (PTuple [AStr ''42071'', AStr ''42072'']) = Inl TypeError \<and>
   in_items (PList [AStr ''42071'', AStr ''42072'']) = Inr ''in(42071,42072)''"
  by simp

text \<open>
  A list of 400 identifiers as a caller passes it to \<open>in_\<close>: one of one character
  and 399 of five characters.
\<close>

definition mixed_values :: "string list" where
  "mixed_values = ''9'' # replicate 399 ''12345''"

definition mixed_filter :: string where
  "mixed_filter = ''in('' @ str_join '','' mixed_values @ '')''"

lemma mixed_values_facts:
  "length mixed_values = 400" "set mixed_values = {''9'', ''12345''}"
  "sum_list (map length mixed_values) = 1996"
  by (simp_all add: mixed_values_def sum_list_replicate)

lemma mixed_join_chars:
  "CHR '')'' \<notin> set (str_join '','' mixed_values)"
  "CHR 0x0A \<notin> set (str_join '','' mixed_values)"
  using set_str_join [of "'',''" mixed_values] by (auto simp: mixed_values_facts)

lemma length_mixed_filter: "length mixed_filter = 2399"
  by (simp add: mixed_filter_def length_str_join mixed_values_facts)

lemma mixed_max_is_short: "\<not> str_less ''9'' ''12345''"
  by code_simp

lemma chunksize_mixed: "chunksize_of mixed_values = Inr 1950"
  using py_max_replicate [OF mixed_max_is_short, of 399]
  by (simp add: chunksize_of_def mixed_values_def del: py_max.simps)

lemma chunk_plan_mixed: "chunk_plan mixed_filter = Inr [mixed_values]"
proof -
  have g: "in_group mixed_filter = Some (str_join '','' mixed_values)"
    using in_group_prefix [OF mixed_join_chars, of "[]"] by (simp add: mixed_filter_def)
  have sp: "split_on CHR '','' (str_join '','' mixed_values) = mixed_values"
    by (rule split_on_join) (auto simp: mixed_values_facts mixed_values_def)
  have ch: "chunks mixed_values 1950 = Inr [mixed_values]"
    using chunks_from_all [of mixed_values 1950] by (simp add: chunks_def mixed_values_facts)
  show ?thesis
    by (simp add: chunk_plan_def g sp chunksize_mixed ch)
qed

text \<open>
  Claim C5, at this list. The chunk size is \<open>1950\<close>, the quotient by the length of
  \<open>max(values)\<close>, which is the greatest value in string order (\<open>9\<close>), not the
  longest one; the plan is one subset holding all 400 values, and its serialised form
  is the 2399 characters of the filter itself.
\<close>

theorem oversized_filter_not_split:
  "in_items (PList (map AStr mixed_values)) = Inr mixed_filter \<and>
   length mixed_filter = 2399 \<and>
   chunksize_of mixed_values = Inr 1950 \<and>
   scan_options [(''api'', AStr mixed_filter)] None = Inr (Some (''api'', [mixed_values]))"
proof -
  have c: "contains ''in('' mixed_filter"
    unfolding mixed_filter_def by (rule contains_in_prefix)
  have sc: "scan_options [(''api'', AStr mixed_filter)] None
              = Inr (Some (''api'', [mixed_values]))"
    using c by (simp add: chunk_plan_mixed length_mixed_filter del: contains.simps)
  have ii: "in_items (PList (map AStr mixed_values)) = Inr mixed_filter"
    by (simp add: py_str_AStr mixed_filter_def)
  from ii length_mixed_filter chunksize_mixed sc show ?thesis
    by (intro conjI)
qed

text \<open>
  The separators are not counted either: with 400 values of five characters each the
  chunk size is \<open>390\<close>, and the first subset serialises to 2343 characters.
\<close>

lemma uniform_values_chunk_too_long:
  "chunksize_of (replicate 400 ''12345'') = Inr 390 \<and>
   chunks (replicate 400 ''12345'') 390 = Inr [replicate 390 ''12345'', replicate 10 ''12345''] \<and>
   map_sum id length (in_items (PList (map AStr (replicate 390 ''12345'')))) = Inr 2343"
proof -
  have r: "replicate 400 ''12345'' = ''12345'' # replicate 399 ''12345''"
    by (simp add: replicate_Suc [symmetric] del: replicate_Suc)
  have "py_max (replicate 400 ''12345'') = Inr ''12345''"
    unfolding r by (rule py_max_replicate) (rule str_less_irrefl)
  then have cz: "chunksize_of (replicate 400 ''12345'') = Inr 390"
    by (simp add: chunksize_of_def)
  have s0: "chunks_from (replicate 400 ''12345'') 390 0 =
              take 390 (drop 0 (replicate 400 ''12345'')) #
              chunks_from (replicate 400 ''12345'') 390 (0 + 390)"
    by (rule chunks_from_step) simp_all
  have s1: "chunks_from (replicate 400 ''12345'') 390 (0 + 390) =
              take 390 (drop (0 + 390) (replicate 400 ''12345'')) #
              chunks_from (replicate 400 ''12345'') 390 (0 + 390 + 390)"
    by (rule chunks_from_step) simp_all
  have s2: "chunks_from (replicate 400 ''12345'') 390 (0 + 390 + 390) = []"
    by (rule chunks_from_end) simp
  have ch: "chunks (replicate 400 ''12345'') 390 =
              Inr [replicate 390 ''12345'', replicate 10 ''12345'']"
    unfolding chunks_def s0 s1 s2 by simp
  have ln: "map_sum id length (in_items (PList (map AStr (replicate 390 ''12345'')))) = Inr 2343"
    by (simp add: py_str_AStr length_str_join sum_list_replicate)
  show ?thesis using cz ch ln by simp
qed

section \<open>Responses, the hook and the token\<close>

lemma mk_response_fields [simp]:
  "status_code (mk_response rp req) = status_code rp"
  "resp_url (mk_response rp req) = resp_url rp"
  "resp_text (mk_response rp req) = resp_text rp"
  "body (mk_response rp req) = body rp"
  "resp_links (mk_response rp req) = resp_links rp"
  "request (mk_response rp req) = req"
  "ok (mk_response rp req) = ok rp"
  by (simp_all add: mk_response_def ok_def)

lemma hdr_get_set: "hdr_get k (hdr_set k v hs) = Some v"
  by (induction hs) auto

lemma hdr_get_set_same: "lower k' = lower k \<Longrightarrow> hdr_get k' (hdr_set k v hs) = Some v"
  by (induction hs) auto


text \<open>A reply with a good status passes the hook unchanged.\<close>

lemma send_ok:
  "script c = rp # rest \<Longrightarrow> ok rp \<Longrightarrow>
     send (Suc d) c req = (Inr (mk_response rp req), c\<lparr>script := rest, sent := sent c @ [req]\<rparr>)"
  by simp

text \<open>A token obtained is stored and becomes the \<open>Authorization\<close> header of the session.\<close>

lemma get_access_token_success:
  assumes "get_access_token d c = (Inr j, c')"
  shows "\<exists>t. access_token c' = Some t \<and>
             hdr_get ''Authorization'' (headers c') = Some (''bearer '' @ py_str t)"
proof (cases "credentials c")
  case (V2 cid sec)
  with assms show ?thesis
    by (auto simp: hdr_get_set simp del: send.simps split: if_splits prod.splits sum.splits)
next
  case (V3 key)
  with assms show ?thesis
    by (auto simp: hdr_get_set simp del: send.simps split: if_splits prod.splits sum.splits)
qed

text \<open>The hook on a reply with status 401, and on a throttled token request.\<close>

lemma send_unauthorized:
  assumes "script c = rp # rest"
    and "status_code rp = 401"
    and "get_access_token d (c\<lparr>script := rest, sent := sent c @ [req]\<rparr>) = (Inr j, c')"
  shows "\<exists>t. access_token c' = Some t \<and>
             hdr_get ''Authorization'' (headers c') = Some (''bearer '' @ py_str t) \<and>
             send (Suc d) c req =
               send d c' (req\<lparr>req_headers :=
                  hdr_set ''Authorization'' (''bearer '' @ py_str t) (req_headers req)\<rparr>)"
proof -
  from get_access_token_success [OF assms(3)] obtain t where
    t: "access_token c' = Some t"
       "hdr_get ''Authorization'' (headers c') = Some (''bearer '' @ py_str t)"
    by blast
  let ?rq = "req\<lparr>req_headers :=
               hdr_set ''Authorization'' (''bearer '' @ py_str t) (req_headers req)\<rparr>"
  have nok: "\<not> ok rp" using assms(2) by (simp add: ok_def)
  have "check_response d (c\<lparr>script := rest, sent := sent c @ [req]\<rparr>) (mk_response rp req)
          = (case send d c' ?rq of (Inl e, c'') \<Rightarrow> (Inl e, c'')
             | (Inr r, c'') \<Rightarrow> (Inr (Some r), c''))"
    using nok assms(2,3) t(2) by (simp del: get_access_token.simps)
  then have "send (Suc d) c req = send d c' ?rq"
    using assms(1)
    by (cases "send d c' ?rq")
       (auto simp del: check_response.simps get_access_token.simps split: sum.splits)
  with t show ?thesis by blast
qed

lemma send_throttled:
  assumes "script c = rp # rest"
    and "status_code rp = 403"
    and "contains ''tokens'' (resp_url rp)"
  shows "send (Suc d) c req =
           send d (c\<lparr>script := rest, sent := sent c @ [req],
                     retries := retries c - 1, slept := slept c + 60\<rparr>) req"
proof -
  let ?c1 = "c\<lparr>script := rest, sent := sent c @ [req],
                 retries := retries c - 1, slept := slept c + 60\<rparr>"
  have nok: "\<not> ok rp" using assms(2) by (simp add: ok_def)
  have "check_response d (c\<lparr>script := rest, sent := sent c @ [req]\<rparr>) (mk_response rp req)
          = (case send d ?c1 req of (Inl e, c') \<Rightarrow> (Inl e, c')
             | (Inr r, c') \<Rightarrow> (Inr (Some r), c'))"
    using nok assms(2,3) by simp
  then show ?thesis
    using assms(1)
    by (cases "send d ?c1 req")
       (auto simp del: check_response.simps split: sum.splits)
qed

text \<open>
  Claim C3, as the code has it. When the reply to a request has status 401 and the
  refresh of the token succeeds, the session holds the new token in its
  \<open>Authorization\<close> header and the outcome of the request is the outcome of sending
  it again with that header. The request sent again is an ordinary \<open>send\<close>: its
  reply goes through the hook as well, so a reply with a good status is handed to the
  caller and a second 401 starts the same refresh again.
\<close>

theorem unauthorized_refresh_and_resend:
  assumes "script c = rp # rest"
    and "status_code rp = 401"
    and "get_access_token d (c\<lparr>script := rest, sent := sent c @ [req]\<rparr>) = (Inr j, c')"
  shows "\<exists>t. access_token c' = Some t \<and>
             hdr_get ''Authorization'' (headers c') = Some (''bearer '' @ py_str t) \<and>
             send (Suc d) c req =
               send d c' (req\<lparr>req_headers :=
                  hdr_set ''Authorization'' (''bearer '' @ py_str t) (req_headers req)\<rparr>)"
  using assms by (rule send_unauthorized)

text \<open>
  Claim C4, as the code has it. When the reply has status 403 and its URL contains
  \<open>tokens\<close>, the client sleeps 60 seconds, lowers \<open>retries\<close> by one and sends the same
  request again, whatever the value of \<open>retries\<close>: the counter is compared with
  nothing, so the request is sent again at zero and below as well.
\<close>

theorem throttled_token_request_resent:
  assumes "script c = rp # rest"
    and "status_code rp = 403"
    and "contains ''tokens'' (resp_url rp)"
  shows "send (Suc d) c req =
           send d (c\<lparr>script := rest, sent := sent c @ [req],
                     retries := retries c - 1, slept := slept c + 60\<rparr>) req"
  using assms by (rule send_throttled)

declare send.simps [simp del] check_response.simps [simp del] get_access_token.simps [simp del]

lemma hdr_set_set: "hdr_set k v (hdr_set k v' hs) = hdr_set k v hs"
  by (induction hs) auto

text \<open>The token request of \<open>DeveloperAPIv3\<close>, answered with a token.\<close>

lemma get_access_token_v3:
  assumes "credentials c = V3 key" and "key \<noteq> []"
    and "script c = rp # rest" and "ok rp"
    and "json_get ''token'' (body rp) = Inr t"
  shows "get_access_token (Suc d) c =
           (Inr (body rp),
            c\<lparr>headers := hdr_set ''Authorization'' (''bearer '' @ py_str t)
                            (hdr_set ''Content-Type'' ''application/json'' (headers c)),
              access_token := Some t, script := rest,
              sent := sent c @
                [prepare (c\<lparr>headers := hdr_set ''Content-Type'' ''application/json'' (headers c)\<rparr>)
                   POST (path_join (url c) ''tokens'') [] None [(''secretKey'', key)]]\<rparr>)"
  using assms by (simp add: get_access_token.simps send_ok)

text \<open>
  A \<open>DeveloperAPIv3\<close> client created with a pregenerated token, and replies of the
  service: a rejection of that token, tokens granted, a throttled token request, a page
  of one record.
\<close>

definition v3_client :: "int \<Rightarrow> reply list \<Rightarrow> client" where
  "v3_client n world =
     (new_client ''https://api.enverus.com/v3/direct-access/'' n (V3 ''secret'') None
        (Some (AStr ''expired'')) world)
     \<lparr>headers := hdr_set ''Authorization'' ''bearer expired'' default_headers\<rparr>"

definition unauthorized :: reply where
  "unauthorized =
     \<lparr>status_code = 401, resp_url = ''https://api.enverus.com/v3/direct-access/wells'',
      resp_text = ''Unauthorized'', body = JObject [], resp_links = []\<rparr>"

definition granted :: "string \<Rightarrow> reply" where
  "granted t =
     \<lparr>status_code = 200, resp_url = ''https://api.enverus.com/v3/direct-access/tokens'',
      resp_text = [], body = JObject [(''token'', AStr t)], resp_links = []\<rparr>"

definition throttled :: reply where
  "throttled =
     \<lparr>status_code = 403, resp_url = ''https://api.enverus.com/v3/direct-access/tokens'',
      resp_text = ''Forbidden'', body = JObject [], resp_links = []\<rparr>"

definition one_well :: reply where
  "one_well =
     \<lparr>status_code = 200, resp_url = ''https://api.enverus.com/v3/direct-access/wells'',
      resp_text = [], body = JArray [[(''id'', AInt 1)]], resp_links = []\<rparr>"

definition get_wells :: "string \<Rightarrow> request" where
  "get_wells token =
     \<lparr>http_method = GET, req_url = ''https://api.enverus.com/v3/direct-access/wells'',
      params = [],
      req_headers = hdr_set ''Authorization'' (''bearer '' @ token) default_headers,
      json_body = []\<rparr>"

lemma v3_client_constructed:
  "DeveloperAPIv3 d ''secret'' n None (Some (AStr ''expired'')) world = Inr (v3_client n world)"
  by (simp add: DeveloperAPIv3_def v3_client_def)

lemma v3_client_fields [simp]:
  "script (v3_client n world) = world" "sent (v3_client n world) = []"
  "credentials (v3_client n world) = V3 ''secret''" "retries (v3_client n world) = n"
  "slept (v3_client n world) = 0" "links (v3_client n world) = None"
  "url (v3_client n world) = ''https://api.enverus.com/v3/direct-access/''"
  by (simp_all add: v3_client_def new_client_def)

lemma example_replies [simp]:
  "status_code unauthorized = 401" "status_code throttled = 403"
  "ok (granted t)" "ok one_well"
  "json_get ''token'' (body (granted t)) = Inr (AStr t)"
  "body (granted t) = JObject [(''token'', AStr t)]"
  by (simp_all add: unauthorized_def throttled_def granted_def one_well_def ok_def)

lemma get_wells_renewed:
  "(get_wells old)\<lparr>req_headers :=
      hdr_set ''Authorization'' (''bearer '' @ new) (req_headers (get_wells old))\<rparr>
   = get_wells new"
  by (simp add: get_wells_def hdr_set_set)

text \<open>
  One rejected token: the state after the refresh, and the outcome of the request.
\<close>

lemma refresh_then_send:
  assumes "script c = unauthorized # granted t # rest" and "credentials c = V3 key" and "key \<noteq> []"
  shows "send (Suc (Suc d)) c (get_wells old) =
           send (Suc d)
             (c\<lparr>headers := hdr_set ''Authorization'' (''bearer '' @ t)
                             (hdr_set ''Content-Type'' ''application/json'' (headers c)),
                access_token := Some (AStr t), script := rest,
                sent := sent c @
                  [get_wells old,
                   prepare (c\<lparr>headers := hdr_set ''Content-Type'' ''application/json'' (headers c)\<rparr>)
                     POST (path_join (url c) ''tokens'') [] None [(''secretKey'', key)]]\<rparr>)
             (get_wells t)"
proof -
  let ?c1 = "c\<lparr>script := granted t # rest, sent := sent c @ [get_wells old]\<rparr>"
  have g: "get_access_token (Suc d) ?c1 =
             (Inr (body (granted t)),
              ?c1\<lparr>headers := hdr_set ''Authorization'' (''bearer '' @ py_str (AStr t))
                              (hdr_set ''Content-Type'' ''application/json'' (headers ?c1)),
                 access_token := Some (AStr t), script := rest,
                 sent := sent ?c1 @
                   [prepare (?c1\<lparr>headers := hdr_set ''Content-Type'' ''application/json''
                                              (headers ?c1)\<rparr>)
                      POST (path_join (url ?c1) ''tokens'') [] None [(''secretKey'', key)]]\<rparr>)"
    by (rule get_access_token_v3) (simp_all add: assms)
  from send_unauthorized [OF assms(1) _ g]
  obtain ta where ta: "access_token (snd (get_access_token (Suc d) ?c1)) = Some ta"
    and e: "send (Suc (Suc d)) c (get_wells old) =
              send (Suc d) (snd (get_access_token (Suc d) ?c1))
                ((get_wells old)\<lparr>req_headers := hdr_set ''Authorization''
                   (''bearer '' @ py_str ta) (req_headers (get_wells old))\<rparr>)"
    unfolding g by auto
  from ta have "ta = AStr t" unfolding g by simp
  with e have "send (Suc (Suc d)) c (get_wells old) =
                 send (Suc d) (snd (get_access_token (Suc d) ?c1)) (get_wells t)"
    by (simp only: py_str.simps get_wells_renewed)
  then show ?thesis
    unfolding g by (simp add: prepare_def)
qed

theorem unauthorized_refresh_and_resend_witness:
  "script (v3_client 5 [unauthorized, granted ''t1'', one_well])
     = unauthorized # [granted ''t1'', one_well] \<and>
   status_code unauthorized = 401 \<and>
   fst (get_access_token 2 ((v3_client 5 [unauthorized, granted ''t1'', one_well])
          \<lparr>script := [granted ''t1'', one_well], sent := [get_wells ''expired'']\<rparr>))
     = Inr (JObject [(''token'', AStr ''t1'')]) \<and>
   fst (send 3 (v3_client 5 [unauthorized, granted ''t1'', one_well]) (get_wells ''expired''))
     = Inr (mk_response one_well (get_wells ''t1'')) \<and>
   hdr_get ''Authorization''
     (headers (snd (send 3 (v3_client 5 [unauthorized, granted ''t1'', one_well])
                      (get_wells ''expired''))))
     = Some ''bearer t1'' \<and>
   map http_method
     (sent (snd (send 3 (v3_client 5 [unauthorized, granted ''t1'', one_well])
                   (get_wells ''expired''))))
     = [GET, POST, GET]"
proof -
  let ?c = "v3_client 5 [unauthorized, granted ''t1'', one_well]"
  let ?c1 = "?c\<lparr>script := [granted ''t1'', one_well], sent := sent ?c @ [get_wells ''expired'']\<rparr>"
  let ?c2 = "?c1\<lparr>headers := hdr_set ''Authorization'' (''bearer '' @ py_str (AStr ''t1''))
                              (hdr_set ''Content-Type'' ''application/json'' (headers ?c1)),
                 access_token := Some (AStr ''t1''), script := [one_well],
                 sent := sent ?c1 @
                   [prepare (?c1\<lparr>headers := hdr_set ''Content-Type'' ''application/json''
                                              (headers ?c1)\<rparr>)
                      POST (path_join (url ?c1) ''tokens'') [] None [(''secretKey'', ''secret'')]]\<rparr>"
  have h1: "script ?c = unauthorized # [granted ''t1'', one_well]" by simp
  have h2: "status_code unauthorized = 401" by simp
  have h3: "get_access_token (Suc 1) ?c1 = (Inr (body (granted ''t1'')), ?c2)"
    by (rule get_access_token_v3) simp_all
  from unauthorized_refresh_and_resend [OF h1 h2 h3]
  obtain ta where "access_token ?c2 = Some ta"
    and "send (Suc (Suc 1)) ?c (get_wells ''expired'') =
           send (Suc 1) ?c2 ((get_wells ''expired'')\<lparr>req_headers := hdr_set ''Authorization''
              (''bearer '' @ py_str ta) (req_headers (get_wells ''expired''))\<rparr>)"
    by auto
  moreover from this have "ta = AStr ''t1''" by simp
  ultimately
  have e: "send (Suc (Suc 1)) ?c (get_wells ''expired'') = send (Suc 1) ?c2 (get_wells ''t1'')"
    by (simp only: py_str.simps get_wells_renewed)
  have r: "send (Suc 1) ?c2 (get_wells ''t1'') =
             (Inr (mk_response one_well (get_wells ''t1'')),
              ?c2\<lparr>script := [], sent := sent ?c2 @ [get_wells ''t1'']\<rparr>)"
    by (rule send_ok) simp_all
  have n: "(3::nat) = Suc (Suc 1)" "(2::nat) = Suc 1" by simp_all
  have f: "fst (get_access_token 2 (?c\<lparr>script := [granted ''t1'', one_well],
                                         sent := [get_wells ''expired'']\<rparr>))
             = Inr (JObject [(''token'', AStr ''t1'')])"
    using h3 by (simp add: n(2))
  show ?thesis
    unfolding n(1) e r using f
    by (simp add: hdr_get_set prepare_def get_wells_def)
qed

text \<open>
  The claim C3 as the specification states it fails here: the request sent again is
  answered with 401 once more, and the client asks for another token and sends the
  request a third time. The caller receives the page; no exception is raised.
\<close>

theorem second_unauthorized_refreshes_again:
  "fst (send 5 (v3_client 5 [unauthorized, granted ''t1'', unauthorized, granted ''t2'', one_well])
          (get_wells ''expired''))
     = Inr (mk_response one_well (get_wells ''t2'')) \<and>
   map http_method
     (sent (snd (send 5
        (v3_client 5 [unauthorized, granted ''t1'', unauthorized, granted ''t2'', one_well])
        (get_wells ''expired''))))
     = [GET, POST, GET, POST, GET]"
proof -
  let ?c = "v3_client 5 [unauthorized, granted ''t1'', unauthorized, granted ''t2'', one_well]"
  let ?p = "\<lambda>c. prepare (c\<lparr>headers := hdr_set ''Content-Type'' ''application/json'' (headers c)\<rparr>)
                 POST (path_join (url c) ''tokens'') [] None [(''secretKey'', ''secret'')]"
  let ?r = "\<lambda>c t rest old.
              c\<lparr>headers := hdr_set ''Authorization'' (''bearer '' @ t)
                              (hdr_set ''Content-Type'' ''application/json'' (headers c)),
                access_token := Some (AStr t), script := rest,
                sent := sent c @ [get_wells old, ?p c]\<rparr>"
  let ?c2 = "?r ?c ''t1'' [unauthorized, granted ''t2'', one_well] ''expired''"
  let ?c4 = "?r ?c2 ''t2'' [one_well] ''t1''"
  have s1: "send (Suc (Suc 3)) ?c (get_wells ''expired'') = send (Suc 3) ?c2 (get_wells ''t1'')"
    by (rule refresh_then_send [where key = "''secret''"]) simp_all
  have s2: "send (Suc (Suc 2)) ?c2 (get_wells ''t1'') = send (Suc 2) ?c4 (get_wells ''t2'')"
    by (rule refresh_then_send [where key = "''secret''"]) simp_all
  have s3: "send (Suc 2) ?c4 (get_wells ''t2'') =
              (Inr (mk_response one_well (get_wells ''t2'')),
               ?c4\<lparr>script := [], sent := sent ?c4 @ [get_wells ''t2'']\<rparr>)"
    by (rule send_ok) simp_all
  have n: "(5::nat) = Suc (Suc 3)" "Suc 3 = Suc (Suc 2)" by simp_all
  show ?thesis
    unfolding n(1) s1 unfolding n(2) s2 s3
    by (simp add: prepare_def get_wells_def)
qed

definition post_token :: request where
  "post_token =
     \<lparr>http_method = POST, req_url = ''https://api.enverus.com/v3/direct-access/tokens'',
      params = [],
      req_headers = hdr_set ''Content-Type'' ''application/json''
                      (hdr_set ''Authorization'' ''bearer expired'' default_headers),
      json_body = [(''secretKey'', ''secret'')]\<rparr>"

lemma tokens_url: "contains ''tokens'' (resp_url throttled)"
  by (simp add: throttled_def)

theorem throttled_token_request_resent_witness:
  "script (v3_client 0 [throttled, granted ''t1'']) = throttled # [granted ''t1''] \<and>
   status_code throttled = 403 \<and>
   contains ''tokens'' (resp_url throttled) \<and>
   send 2 (v3_client 0 [throttled, granted ''t1'']) post_token =
     send 1 ((v3_client 0 [throttled, granted ''t1''])
               \<lparr>script := [granted ''t1''], sent := [post_token], retries := - 1, slept := 60\<rparr>)
       post_token \<and>
   fst (send 2 (v3_client 0 [throttled, granted ''t1'']) post_token)
     = Inr (mk_response (granted ''t1'') post_token)"
proof -
  let ?c = "v3_client 0 [throttled, granted ''t1'']"
  have h1: "script ?c = throttled # [granted ''t1'']" by simp
  have h2: "status_code throttled = 403" by simp
  from throttled_token_request_resent [OF h1 h2 tokens_url, of "Suc 0" post_token]
  have e: "send 2 ?c post_token =
             send 1 (?c\<lparr>script := [granted ''t1''], sent := [post_token],
                        retries := - 1, slept := 60\<rparr>) post_token"
    by (simp add: numeral_2_eq_2)
  have r: "fst (send (Suc 0) (?c\<lparr>script := [granted ''t1''], sent := [post_token],
                        retries := - 1, slept := 60\<rparr>) post_token)
             = Inr (mk_response (granted ''t1'') post_token)"
    by (simp add: send_ok)
  show ?thesis
    using h1 h2 tokens_url e r by simp
qed

text \<open>
  The claim C4 as the specification states it fails here: a client created with a
  budget of one retry, whose token request is throttled twice. After the first 403 the
  budget is spent; at the second the request is sent again all the same, and the client
  is created, with \<open>retries\<close> at \<open>-1\<close>, after 120 seconds of sleep and three token
  requests. No exception is raised.
\<close>

theorem throttled_beyond_budget_still_resent:
  "map_sum id (\<lambda>c. (retries c, slept c, access_token c, map http_method (sent c)))
     (DeveloperAPIv3 3 ''secret'' 1 None None [throttled, throttled, granted ''t1''])
   = Inr (- 1, 120, Some (AStr ''t1''), [POST, POST, POST])"
proof -
  have n: "(3::nat) = Suc (Suc (Suc 0))" by simp
  show ?thesis
    unfolding n
    by (simp add: DeveloperAPIv3_def new_client_def get_access_token.simps prepare_def
          send_throttled [OF _ _ tokens_url] send_ok)
qed

section \<open>The paging loop\<close>

lemma send_no_reply:
  "script c = [] \<Longrightarrow> send (Suc d) c req = (Inl ConnectionError, c\<lparr>sent := sent c @ [req]\<rparr>)"
  by (simp add: send.simps)

lemma send_bad_request:
  "script c = rp # rest \<Longrightarrow> status_code rp = 400 \<Longrightarrow>
     send (Suc d) c req =
       (Inl (if contains ''tokens'' (resp_url rp)
             then DAAuthException (''Error getting token. Code: '' @ str_nat (status_code rp)
                    @ '' Message: '' @ resp_text rp)
             else DAQueryException (resp_text rp)),
        c\<lparr>script := rest, sent := sent c @ [req]\<rparr>)"
  by (simp add: send.simps check_response.simps ok_def)

lemma dict_pop_absent: "map_of kvs k = None \<Longrightarrow> dict_pop k kvs = kvs"
  by (induction kvs) (auto simp: dict_pop_def split: if_splits)

lemma next_request_fresh:
  "\<not> links_truthy (links c) \<Longrightarrow> \<not> pending qc \<Longrightarrow>
     next_request c q opts qc = Inr (prepare c GET q opts None [], opts, qc)"
  by (cases qc rule: pending.cases) (simp_all add: next_request_def)

lemma next_request_link:
  "links c = Some l \<Longrightarrow> map_of l ''next'' = Some u \<Longrightarrow>
     next_request c q opts qc = Inr (prepare c GET (butlast (url c) @ u) [] None [], opts, qc)"
  by (cases l) (simp_all add: next_request_def links_truthy_def)

lemma next_request_chunk:
  "\<not> links_truthy (links c) \<Longrightarrow>
     next_request c q opts (Some (field, ch # rest)) =
       Inr (prepare c GET q
              (dict_set field (AStr (''in('' @ str_join '','' ch @ '')'')) opts) None [],
            dict_set field (AStr (''in('' @ str_join '','' ch @ '')'')) opts,
            Some (field, rest))"
  by (simp add: next_request_def py_str_AStr)

text \<open>One turn of the loop whose request is answered with a good status.\<close>

lemma loop_step:
  assumes "next_request c q opts qc = Inr (req, opts', qc')"
    and "script c = rp # rest" and "ok rp"
  shows "query_loop (Suc d) c q opts qc paging acc =
     (if records_of (body rp) = [] then
        (if pending qc'
         then query_loop (Suc d) (c\<lparr>script := rest, sent := sent c @ [req], links := None\<rparr>)
                q opts' qc' paging acc
         else ((acc, None), c\<lparr>script := rest, sent := sent c @ [req], links := None\<rparr>))
      else if map_of (resp_links rp) ''next'' = None then
        (if links c = None
         then ((acc @ records_of (body rp), None), c\<lparr>script := rest, sent := sent c @ [req]\<rparr>)
         else (case paging of
                 AInt i \<Rightarrow> ((acc @ records_of (body rp), Some AttributeError),
                            c\<lparr>script := rest, sent := sent c @ [req]\<rparr>)
               | AStr p \<Rightarrow>
                   (if lower p = ''false''
                    then ((acc @ records_of (body rp), None),
                          c\<lparr>script := rest, sent := sent c @ [req]\<rparr>)
                    else query_loop (Suc d) (c\<lparr>script := rest, sent := sent c @ [req]\<rparr>)
                           q opts' qc' paging (acc @ records_of (body rp)))))
      else
        (case paging of
           AInt i \<Rightarrow> ((acc @ records_of (body rp), Some AttributeError),
                      c\<lparr>script := rest, sent := sent c @ [req], links := Some (resp_links rp)\<rparr>)
         | AStr p \<Rightarrow>
             (if lower p = ''false''
              then ((acc @ records_of (body rp), None),
                    c\<lparr>script := rest, sent := sent c @ [req], links := Some (resp_links rp)\<rparr>)
              else query_loop (Suc d)
                     (c\<lparr>script := rest, sent := sent c @ [req], links := Some (resp_links rp)\<rparr>)
                     q opts' qc' paging (acc @ records_of (body rp)))))"
  by (subst query_loop.simps) (cases paging; simp add: assms send_ok)

lemma loop_raises:
  assumes "next_request c q opts qc = Inr (req, opts', qc')"
    and "send d c req = (Inl e, c')"
  shows "query_loop d c q opts qc paging acc = ((acc, Some e), c')"
  by (subst query_loop.simps) (simp add: assms)

text \<open>
  A page of a paged result carries records and a \<open>next\<close> link; an empty batch ends
  the result. \<open>next_url\<close> is the URL of the link.
\<close>

definition is_page :: "reply \<Rightarrow> bool" where
  "is_page rp =
     (ok rp \<and> records_of (body rp) \<noteq> [] \<and> map_of (resp_links rp) ''next'' \<noteq> None)"

definition is_empty_batch :: "reply \<Rightarrow> bool" where
  "is_empty_batch rp = (ok rp \<and> records_of (body rp) = [])"

definition next_url :: "reply \<Rightarrow> string" where
  "next_url rp = (case map_of (resp_links rp) ''next'' of None \<Rightarrow> [] | Some u \<Rightarrow> u)"

text \<open>The option \<open>paging\<close> as line 438 reads it, and the test of line 472 on it.\<close>

definition paging_of :: "options \<Rightarrow> atom" where
  "paging_of options = (case map_of options ''paging'' of None \<Rightarrow> AStr ''true'' | Some p \<Rightarrow> p)"

fun paging_enabled :: "atom \<Rightarrow> bool" where
  "paging_enabled (AStr p) = (lower p \<noteq> ''false'')"
| "paging_enabled (AInt i) = False"

lemma lower_true: "lower ''true'' \<noteq> ''false''"
  by code_simp

text \<open>Following the links from a page on, up to the empty batch.\<close>

lemma follow_pages:
  assumes e: "is_empty_batch e" and p: "paging_enabled paging"
  shows "list_all is_page pages \<Longrightarrow> script c = pages @ e # rest \<Longrightarrow> links c = Some l \<Longrightarrow>
         map_of l ''next'' = Some u \<Longrightarrow>
     query_loop (Suc d) c q opts None paging acc =
       ((acc @ concat (map (\<lambda>rp. records_of (body rp)) pages), None),
        c\<lparr>script := rest,
          sent := sent c @ map (\<lambda>v. prepare c GET (butlast (url c) @ v) [] None [])
                             (u # map next_url pages),
          links := None\<rparr>)"
proof (induction pages arbitrary: c l u acc)
  case Nil
  have nr: "next_request c q opts None
              = Inr (prepare c GET (butlast (url c) @ u) [] None [], opts, None)"
    using Nil.prems by (simp add: next_request_link)
  from Nil.prems have sc: "script c = e # rest" by simp
  from e have oe: "ok e" "records_of (body e) = []" by (simp_all add: is_empty_batch_def)
  show ?case
    by (simp add: loop_step [OF nr sc oe(1)] oe(2))
next
  case (Cons pg pages)
  have nr: "next_request c q opts None
              = Inr (prepare c GET (butlast (url c) @ u) [] None [], opts, None)"
    using Cons.prems by (simp add: next_request_link)
  from Cons.prems have sc: "script c = pg # (pages @ e # rest)" by simp
  from Cons.prems have pg: "ok pg" "records_of (body pg) \<noteq> []"
    "map_of (resp_links pg) ''next'' = Some (next_url pg)"
    by (auto simp: is_page_def next_url_def)
  obtain s where s: "paging = AStr s" "lower s \<noteq> ''false''"
    using p by (cases paging) auto
  let ?c2 = "c\<lparr>script := pages @ e # rest,
                 sent := sent c @ [prepare c GET (butlast (url c) @ u) [] None []],
                 links := Some (resp_links pg)\<rparr>"
  have st: "query_loop (Suc d) c q opts None paging acc =
              query_loop (Suc d) ?c2 q opts None paging (acc @ records_of (body pg))"
    by (simp add: loop_step [OF nr sc pg(1)] pg s)
  have ih: "query_loop (Suc d) ?c2 q opts None paging (acc @ records_of (body pg)) =
       (((acc @ records_of (body pg)) @ concat (map (\<lambda>rp. records_of (body rp)) pages), None),
        ?c2\<lparr>script := rest,
          sent := sent ?c2 @ map (\<lambda>v. prepare ?c2 GET (butlast (url ?c2) @ v) [] None [])
                             (next_url pg # map next_url pages),
          links := None\<rparr>)"
    by (rule Cons.IH [where l = "resp_links pg"]) (use Cons.prems pg in simp_all)
  show ?case
    unfolding st ih by (simp add: prepare_def)
qed

text \<open>
  A paged result that ends with an empty batch. On a session without a continuation
  link, for a call without a chunk plan and with paging enabled, when the server answers
  with pages that each carry records and a \<open>next\<close> link and then with an empty
  batch, the generator yields the records of the pages in the order of the server,
  across the pages, and ends: it has sent one request to the dataset and one to the link
  of each page, and it leaves the session without a link.
\<close>

lemma query_pages_until_empty_batch:
  assumes "\<not> links_truthy (links c)"
    and "script c = pages @ e # rest"
    and "list_all is_page pages"
    and "is_empty_batch e"
    and "scan_options options None = Inr None"
    and "paging_enabled (paging_of options)"
  shows "query (Suc d) c dataset options =
           ((concat (map (\<lambda>rp. records_of (body rp)) pages), None),
            c\<lparr>script := rest,
              sent := sent c @
                prepare c GET (path_join (url c) dataset) (dict_pop ''paging'' options) None [] #
                map (\<lambda>rp. prepare c GET (butlast (url c) @ next_url rp) [] None []) pages,
              links := None\<rparr>)"
proof -
  let ?q = "path_join (url c) dataset"
  let ?o = "dict_pop ''paging'' options"
  let ?rq = "prepare c GET ?q ?o None []"
  have nr: "next_request c ?q ?o None = Inr (?rq, ?o, None)"
    using assms(1) by (simp add: next_request_fresh)
  have q: "query (Suc d) c dataset options = query_loop (Suc d) c ?q ?o None (paging_of options) []"
    by (simp add: query_def assms(5) paging_of_def)
  show ?thesis
  proof (cases pages)
    case Nil
    with assms(2) have sc: "script c = e # rest" by simp
    from assms(4) have oe: "ok e" "records_of (body e) = []" by (simp_all add: is_empty_batch_def)
    show ?thesis
      unfolding q by (simp add: loop_step [OF nr sc oe(1)] oe(2) Nil)
  next
    case (Cons pg ps)
    with assms(2) have sc: "script c = pg # (ps @ e # rest)" by simp
    from Cons assms(3) have pg: "ok pg" "records_of (body pg) \<noteq> []"
      "map_of (resp_links pg) ''next'' = Some (next_url pg)" and ps: "list_all is_page ps"
      by (auto simp: is_page_def next_url_def)
    obtain s where s: "paging_of options = AStr s" "lower s \<noteq> ''false''"
      using assms(6) by (cases "paging_of options") auto
    let ?c2 = "c\<lparr>script := ps @ e # rest, sent := sent c @ [?rq],
                   links := Some (resp_links pg)\<rparr>"
    have st: "query_loop (Suc d) c ?q ?o None (paging_of options) [] =
                query_loop (Suc d) ?c2 ?q ?o None (paging_of options) ([] @ records_of (body pg))"
      by (simp add: loop_step [OF nr sc pg(1)] pg s)
    have fl: "query_loop (Suc d) ?c2 ?q ?o None (paging_of options) ([] @ records_of (body pg)) =
       ((([] @ records_of (body pg)) @ concat (map (\<lambda>rp. records_of (body rp)) ps), None),
        ?c2\<lparr>script := rest,
          sent := sent ?c2 @ map (\<lambda>v. prepare ?c2 GET (butlast (url ?c2) @ v) [] None [])
                             (next_url pg # map next_url ps),
          links := None\<rparr>)"
      by (rule follow_pages [OF assms(4) assms(6) ps, where l = "resp_links pg"])
         (simp_all add: pg)
    show ?thesis
      unfolding q st fl by (simp add: Cons prepare_def comp_def)
  qed
qed

text \<open>
  A page without a \<open>next\<close> link, received while the session holds the link of an
  earlier page: the link stays, the loop goes on and requests it again.
\<close>

lemma stale_link_requested_again:
  assumes "links c = Some l" and "map_of l ''next'' = Some u"
    and "script c = [pg]" and "ok pg" and "records_of (body pg) \<noteq> []"
    and "map_of (resp_links pg) ''next'' = None" and "paging_enabled paging"
  shows "query_loop (Suc d) c q opts None paging acc =
           ((acc @ records_of (body pg), Some ConnectionError),
            c\<lparr>script := [],
              sent := sent c @ [prepare c GET (butlast (url c) @ u) [] None [],
                                prepare c GET (butlast (url c) @ u) [] None []]\<rparr>)"
proof -
  let ?rq = "prepare c GET (butlast (url c) @ u) [] None []"
  let ?c1 = "c\<lparr>script := [], sent := sent c @ [?rq]\<rparr>"
  obtain s where s: "paging = AStr s" "lower s \<noteq> ''false''"
    using assms(7) by (cases paging) auto
  have nr: "next_request c q opts None = Inr (?rq, opts, None)"
    using assms(1,2) by (simp add: next_request_link)
  have st: "query_loop (Suc d) c q opts None paging acc =
              query_loop (Suc d) ?c1 q opts None paging (acc @ records_of (body pg))"
    by (simp add: loop_step [OF nr assms(3) assms(4)] assms s)
  have nr1: "next_request ?c1 q opts None = Inr (prepare ?c1 GET (butlast (url ?c1) @ u) [] None [], opts, None)"
    by (rule next_request_link [where l = l]) (simp_all add: assms)
  have sn: "send (Suc d) ?c1 (prepare ?c1 GET (butlast (url ?c1) @ u) [] None []) =
              (Inl ConnectionError,
               ?c1\<lparr>sent := sent ?c1 @ [prepare ?c1 GET (butlast (url ?c1) @ u) [] None []]\<rparr>)"
    by (rule send_no_reply) simp
  show ?thesis
    unfolding st loop_raises [OF nr1 sn] by (simp add: prepare_def)
qed

text \<open>
  A \<open>DirectAccessV2\<close> client created with a pregenerated token, and answers of the
  \<open>wells\<close> dataset: the records given, with the links given.
\<close>

definition v2_client :: "reply list \<Rightarrow> client" where
  "v2_client world =
     (new_client ''https://di-api.drillinginfo.com/v2/direct-access/'' 5 (V2 ''id'' ''secret'')
        None (Some (AStr ''token'')) world)
     \<lparr>headers := hdr_set ''Authorization'' ''bearer token'' default_headers\<rparr>"

definition wells_page :: "row list \<Rightarrow> (string \<times> string) list \<Rightarrow> reply" where
  "wells_page rows lks =
     \<lparr>status_code = 200, resp_url = ''https://di-api.drillinginfo.com/v2/direct-access/wells'',
      resp_text = [], body = JArray rows, resp_links = lks\<rparr>"

definition page_one :: reply where
  "page_one = wells_page [[(''id'', AInt 1)], [(''id'', AInt 2)]]
                [(''next'', ''/wells?pagesize=2&page=2'')]"

lemma v2_client_constructed:
  "DirectAccessV2 d ''id'' ''secret'' 5 None (Some (AStr ''token'')) world = Inr (v2_client world)"
  by (simp add: DirectAccessV2_def v2_client_def)

lemma v2_client_fields [simp]:
  "script (v2_client world) = world" "sent (v2_client world) = []"
  "links (v2_client world) = None"
  "url (v2_client world) = ''https://di-api.drillinginfo.com/v2/direct-access/''"
  by (simp_all add: v2_client_def new_client_def)

lemma wells_page_fields [simp]:
  "ok (wells_page rows lks)" "records_of (body (wells_page rows lks)) = rows"
  "resp_links (wells_page rows lks) = lks" "status_code (wells_page rows lks) = 200"
  by (simp_all add: wells_page_def ok_def)

lemma page_one_fields [simp]:
  "ok page_one" "records_of (body page_one) = [[(''id'', AInt 1)], [(''id'', AInt 2)]]"
  "resp_links page_one = [(''next'', ''/wells?pagesize=2&page=2'')]"
  "is_page page_one" "next_url page_one = ''/wells?pagesize=2&page=2''"
  by (simp_all add: page_one_def is_page_def next_url_def)

lemma str_int_2: "str_int 2 = ''2''"
  by code_simp

lemma pagesize_option [simp]:
  "scan_options [(''pagesize'', AInt 2)] None = Inr None"
  "paging_of [(''pagesize'', AInt 2)] = AStr ''true''"
  "dict_pop ''paging'' [(''pagesize'', AInt 2)] = [(''pagesize'', AInt 2)]"
  by (simp_all add: str_int_2 paging_of_def dict_pop_def)

lemma query_pages_until_empty_batch_example:
  "\<not> links_truthy (links (v2_client [page_one,
       wells_page [[(''id'', AInt 3)]] [(''next'', ''/wells?pagesize=2&page=3'')],
       wells_page [] []])) \<and>
   script (v2_client [page_one,
       wells_page [[(''id'', AInt 3)]] [(''next'', ''/wells?pagesize=2&page=3'')],
       wells_page [] []])
     = [page_one, wells_page [[(''id'', AInt 3)]] [(''next'', ''/wells?pagesize=2&page=3'')]]
       @ wells_page [] [] # [] \<and>
   list_all is_page
     [page_one, wells_page [[(''id'', AInt 3)]] [(''next'', ''/wells?pagesize=2&page=3'')]] \<and>
   is_empty_batch (wells_page [] []) \<and>
   scan_options [(''pagesize'', AInt 2)] None = Inr None \<and>
   paging_enabled (paging_of [(''pagesize'', AInt 2)]) \<and>
   fst (query 1 (v2_client [page_one,
          wells_page [[(''id'', AInt 3)]] [(''next'', ''/wells?pagesize=2&page=3'')],
          wells_page [] []]) ''wells'' [(''pagesize'', AInt 2)])
     = ([[(''id'', AInt 1)], [(''id'', AInt 2)], [(''id'', AInt 3)]], None) \<and>
   links (snd (query 1 (v2_client [page_one,
          wells_page [[(''id'', AInt 3)]] [(''next'', ''/wells?pagesize=2&page=3'')],
          wells_page [] []]) ''wells'' [(''pagesize'', AInt 2)])) = None"
proof -
  let ?p2 = "wells_page [[(''id'', AInt 3)]] [(''next'', ''/wells?pagesize=2&page=3'')]"
  let ?c = "v2_client [page_one, ?p2, wells_page [] []]"
  have h1: "\<not> links_truthy (links ?c)" by (simp add: links_truthy_def)
  have h2: "script ?c = [page_one, ?p2] @ wells_page [] [] # []" by simp
  have h3: "list_all is_page [page_one, ?p2]" by (simp add: is_page_def)
  have h4: "is_empty_batch (wells_page [] [])" by (simp add: is_empty_batch_def)
  have h5: "scan_options [(''pagesize'', AInt 2)] None = Inr None" by (rule pagesize_option)
  have h6: "paging_enabled (paging_of [(''pagesize'', AInt 2)])"
    by (simp add: pagesize_option lower_true)
  from query_pages_until_empty_batch [OF h1 h2 h3 h4 h5 h6, of 0 "''wells''"]
  have "fst (query 1 ?c ''wells'' [(''pagesize'', AInt 2)])
          = ([[(''id'', AInt 1)], [(''id'', AInt 2)], [(''id'', AInt 3)]], None)"
       "links (snd (query 1 ?c ''wells'' [(''pagesize'', AInt 2)])) = None"
    by simp_all
  with h1 h2 h3 h4 h5 h6 show ?thesis by blast
qed

text \<open>
  Claim C1, at its own example, where it fails. Page 1 holds the records 1 and 2 and a
  \<open>next\<close> link, page 2 holds the record 3 and no link. The generator yields the three
  records and does not end there: the link of page 1 is still on the session (line 466
  has no \<open>else\<close>), so the test of line 472 lets the loop go on, and a third request
  goes to the link of page 1 once more, which the server of the example does not answer.
\<close>

theorem query_final_page_without_link_requested_again:
  "fst (query 1 (v2_client [page_one, wells_page [[(''id'', AInt 3)]] []])
          ''wells'' [(''pagesize'', AInt 2)])
     = ([[(''id'', AInt 1)], [(''id'', AInt 2)], [(''id'', AInt 3)]], Some ConnectionError) \<and>
   map req_url
     (sent (snd (query 1 (v2_client [page_one, wells_page [[(''id'', AInt 3)]] []])
                   ''wells'' [(''pagesize'', AInt 2)])))
     = [''https://di-api.drillinginfo.com/v2/direct-access/wells'',
        ''https://di-api.drillinginfo.com/v2/direct-access/wells?pagesize=2&page=2'',
        ''https://di-api.drillinginfo.com/v2/direct-access/wells?pagesize=2&page=2'']"
proof -
  let ?p2 = "wells_page [[(''id'', AInt 3)]] []"
  let ?c = "v2_client [page_one, ?p2]"
  let ?q = "path_join (url ?c) ''wells''"
  let ?o = "[(''pagesize'', AInt 2)]"
  let ?rq = "prepare ?c GET ?q ?o None []"
  let ?c2 = "?c\<lparr>script := [?p2], sent := sent ?c @ [?rq], links := Some (resp_links page_one)\<rparr>"
  have n: "(1::nat) = Suc 0" by simp
  have q: "query (Suc 0) ?c ''wells'' ?o = query_loop (Suc 0) ?c ?q ?o None (AStr ''true'') []"
    by (simp add: query_def pagesize_option paging_of_def [symmetric] del: scan_options.simps)
  have nr: "next_request ?c ?q ?o None = Inr (?rq, ?o, None)"
    by (rule next_request_fresh) (simp_all add: links_truthy_def)
  have st: "query_loop (Suc 0) ?c ?q ?o None (AStr ''true'') [] =
              query_loop (Suc 0) ?c2 ?q ?o None (AStr ''true'')
                ([] @ records_of (body page_one))"
    by (subst loop_step [OF nr, where rp = page_one and rest = "[?p2]"])
       (simp_all add: lower_true)
  have fl: "query_loop (Suc 0) ?c2 ?q ?o None (AStr ''true'') ([] @ records_of (body page_one)) =
           ((([] @ records_of (body page_one)) @ records_of (body ?p2), Some ConnectionError),
            ?c2\<lparr>script := [],
              sent := sent ?c2 @
                [prepare ?c2 GET (butlast (url ?c2) @ ''/wells?pagesize=2&page=2'') [] None [],
                 prepare ?c2 GET (butlast (url ?c2) @ ''/wells?pagesize=2&page=2'') [] None []]\<rparr>)"
    by (rule stale_link_requested_again [where l = "resp_links page_one"])
       (simp_all add: lower_true)
  show ?thesis
    unfolding n q st fl by (simp add: prepare_def path_join_def)
qed

section \<open>Paging disabled\<close>

text \<open>A call with \<open>paging="false"\<close> whose first request is answered with a good status.\<close>

lemma query_paging_false:
  assumes "map_of options ''paging'' = Some (AStr p)" and "lower p = ''false''"
    and "scan_options options None = Inr qc"
    and "next_request c (path_join (url c) dataset) (dict_pop ''paging'' options) qc
           = Inr (req, options', qc')"
    and "script c = rp # rest" and "ok rp"
    and "records_of (body rp) \<noteq> [] \<or> \<not> pending qc'"
  shows "query (Suc d) c dataset options =
     ((records_of (body rp), None),
      c\<lparr>script := rest, sent := sent c @ [req],
        links := (if records_of (body rp) = [] then None
                  else if map_of (resp_links rp) ''next'' = None then links c
                  else Some (resp_links rp))\<rparr>)"
proof -
  have q: "query (Suc d) c dataset options =
             query_loop (Suc d) c (path_join (url c) dataset) (dict_pop ''paging'' options) qc
               (AStr p) []"
    by (simp add: query_def assms(1,3))
  show ?thesis
    unfolding q using assms(2,7)
    by (auto simp: loop_step [OF assms(4) assms(5) assms(6)])
qed

text \<open>
  Claim C7, as the code has it. With \<open>paging\<close> set to \<open>false\<close>, when the first
  request of the call is answered with a batch that holds records, or with an empty
  batch while no subset of a chunk plan is pending, the generator yields exactly the
  records of that first batch and ends, whether or not the response carries a
  \<open>next\<close> link: one request is sent and the other replies of the server stay unread.
\<close>

theorem paging_false_yields_first_batch:
  assumes "map_of options ''paging'' = Some (AStr p)" and "lower p = ''false''"
    and "scan_options options None = Inr qc"
    and "next_request c (path_join (url c) dataset) (dict_pop ''paging'' options) qc
           = Inr (req, options', qc')"
    and "script c = rp # rest" and "ok rp"
    and "records_of (body rp) \<noteq> [] \<or> \<not> pending qc'"
  shows "fst (query (Suc d) c dataset options) = (records_of (body rp), None) \<and>
         sent (snd (query (Suc d) c dataset options)) = sent c @ [req] \<and>
         script (snd (query (Suc d) c dataset options)) = rest"
  by (simp add: query_paging_false [OF assms])

lemma lower_false: "lower ''false'' = ''false''"
  by code_simp

lemma paging_false_option:
  "scan_options [(''paging'', AStr ''false'')] None = Inr None"
  "dict_pop ''paging'' [(''paging'', AStr ''false'')] = []"
  "map_of [(''paging'', AStr ''false'')] ''paging'' = Some (AStr ''false'')"
  by (simp_all add: dict_pop_def)

theorem paging_false_yields_first_batch_witness:
  "map_of [(''paging'', AStr ''false'')] ''paging'' = Some (AStr ''false'') \<and>
   lower ''false'' = ''false'' \<and>
   scan_options [(''paging'', AStr ''false'')] None = Inr None \<and>
   script (v2_client [page_one, wells_page [[(''id'', AInt 3)]] []])
     = page_one # [wells_page [[(''id'', AInt 3)]] []] \<and>
   ok page_one \<and>
   records_of (body page_one) = [[(''id'', AInt 1)], [(''id'', AInt 2)]] \<and>
   map_of (resp_links page_one) ''next'' = Some ''/wells?pagesize=2&page=2'' \<and>
   fst (query 1 (v2_client [page_one, wells_page [[(''id'', AInt 3)]] []]) ''wells''
          [(''paging'', AStr ''false'')])
     = ([[(''id'', AInt 1)], [(''id'', AInt 2)]], None) \<and>
   script (snd (query 1 (v2_client [page_one, wells_page [[(''id'', AInt 3)]] []]) ''wells''
                  [(''paging'', AStr ''false'')]))
     = [wells_page [[(''id'', AInt 3)]] []]"
proof -
  let ?c = "v2_client [page_one, wells_page [[(''id'', AInt 3)]] []]"
  let ?rq = "prepare ?c GET (path_join (url ?c) ''wells'') [] None []"
  have h4: "next_request ?c (path_join (url ?c) ''wells'')
              (dict_pop ''paging'' [(''paging'', AStr ''false'')]) None = Inr (?rq, [], None)"
    unfolding paging_false_option by (rule next_request_fresh) (simp_all add: links_truthy_def)
  have h5: "script ?c = page_one # [wells_page [[(''id'', AInt 3)]] []]" by simp
  have h6: "ok page_one" by simp
  have h7: "records_of (body page_one) \<noteq> [] \<or> \<not> pending None" by simp
  from paging_false_yields_first_batch
         [OF paging_false_option(3) lower_false paging_false_option(1) h4 h5 h6 h7, of 0]
  have "fst (query 1 ?c ''wells'' [(''paging'', AStr ''false'')])
          = ([[(''id'', AInt 1)], [(''id'', AInt 2)]], None)"
       "script (snd (query 1 ?c ''wells'' [(''paging'', AStr ''false'')]))
          = [wells_page [[(''id'', AInt 3)]] []]"
    by simp_all
  with paging_false_option lower_false h5 h6 h7 show ?thesis by simp
qed

text \<open>
  The claim C7 as the specification states it fails here: the call carries the
  oversized filter of three long values, split into two subsets, and \<open>paging\<close> set
  to \<open>false\<close>. The first response batch, for the first subset, is empty; the
  generator goes on to the second subset and yields the record of the second batch.
\<close>

theorem paging_false_empty_batch_next_chunk:
  "records_of (body (wells_page [] [])) = [] \<and>
   fst (query 1 (v2_client [wells_page [] [], wells_page [[(''id'', AInt 7)]] []]) ''wells''
          [(''api'', AStr long_filter), (''paging'', AStr ''false'')])
     = ([[(''id'', AInt 7)]], None) \<and>
   length (sent (snd (query 1
       (v2_client [wells_page [] [], wells_page [[(''id'', AInt 7)]] []]) ''wells''
       [(''api'', AStr long_filter), (''paging'', AStr ''false'')]))) = 2"
proof -
  let ?p7 = "wells_page [[(''id'', AInt 7)]] []"
  let ?c = "v2_client [wells_page [] [], ?p7]"
  let ?opts = "[(''api'', AStr long_filter), (''paging'', AStr ''false'')]"
  let ?q = "path_join (url ?c) ''wells''"
  let ?o = "[(''api'', AStr long_filter)]"
  let ?f1 = "AStr (''in('' @ str_join '','' [long_value, long_value] @ '')'')"
  let ?f2 = "AStr (''in('' @ str_join '','' [long_value] @ '')'')"
  let ?o1 = "dict_set ''api'' ?f1 ?o"
  let ?o2 = "dict_set ''api'' ?f2 ?o1"
  let ?r1 = "prepare ?c GET ?q ?o1 None []"
  let ?c1 = "?c\<lparr>script := [?p7], sent := sent ?c @ [?r1], links := None\<rparr>"
  let ?r2 = "prepare ?c1 GET ?q ?o2 None []"
  have n: "(1::nat) = Suc 0" by simp
  have cf: "contains ''in('' long_filter"
    unfolding long_filter_def by (rule contains_in_prefix)
  have nf: "\<not> contains ''in('' ''false''" by simp
  have sc: "scan_options ?opts None = Inr (Some (''api'', [[long_value, long_value], [long_value]]))"
    using cf nf
    by (simp add: chunk_plan_long_filter length_long_filter del: contains.simps)
  have dp: "dict_pop ''paging'' ?opts = ?o" by (simp add: dict_pop_def)
  have q: "query (Suc 0) ?c ''wells'' ?opts =
             query_loop (Suc 0) ?c ?q ?o
               (Some (''api'', [[long_value, long_value], [long_value]])) (AStr ''false'') []"
    unfolding query_def sc dp by simp
  have nr1: "next_request ?c ?q ?o (Some (''api'', [long_value, long_value] # [[long_value]]))
               = Inr (?r1, ?o1, Some (''api'', [[long_value]]))"
    by (rule next_request_chunk) (simp add: links_truthy_def)
  have st1: "query_loop (Suc 0) ?c ?q ?o
               (Some (''api'', [[long_value, long_value], [long_value]])) (AStr ''false'') [] =
             query_loop (Suc 0) ?c1 ?q ?o1 (Some (''api'', [[long_value]])) (AStr ''false'') []"
    by (subst loop_step [OF nr1, where rp = "wells_page [] []" and rest = "[?p7]"]) simp_all
  have nr2: "next_request ?c1 ?q ?o1 (Some (''api'', [long_value] # []))
               = Inr (?r2, ?o2, Some (''api'', []))"
    by (rule next_request_chunk) (simp add: links_truthy_def)
  have st2: "query_loop (Suc 0) ?c1 ?q ?o1 (Some (''api'', [[long_value]])) (AStr ''false'') [] =
             (([] @ records_of (body ?p7), None), ?c1\<lparr>script := [], sent := sent ?c1 @ [?r2]\<rparr>)"
    by (subst loop_step [OF nr2, where rp = ?p7 and rest = "[]"]) simp_all
  show ?thesis
    unfolding n q st1 st2 by simp
qed

section \<open>Continuation links across calls\<close>

text \<open>
  Claim C2, at a failing input. A first call, for \<open>wells\<close> with \<open>paging="false"\<close>,
  is answered with a page that carries a \<open>next\<close> link: the generator yields the page
  and ends, and the link stays on the session. A second call on the same session, for
  \<open>rigs\<close>, sends its first request to that link of \<open>wells\<close>: no request goes to the
  \<open>rigs\<close> dataset.
\<close>

theorem link_of_prior_call_requested:
  "fst (query 1 (v2_client [page_one, wells_page [] []]) ''wells'' [(''paging'', AStr ''false'')])
     = ([[(''id'', AInt 1)], [(''id'', AInt 2)]], None) \<and>
   links (snd (query 1 (v2_client [page_one, wells_page [] []]) ''wells''
                 [(''paging'', AStr ''false'')]))
     = Some [(''next'', ''/wells?pagesize=2&page=2'')] \<and>
   map req_url
     (sent (snd (query 1
        (snd (query 1 (v2_client [page_one, wells_page [] []]) ''wells''
                [(''paging'', AStr ''false'')]))
        ''rigs'' [])))
     = [''https://di-api.drillinginfo.com/v2/direct-access/wells'',
        ''https://di-api.drillinginfo.com/v2/direct-access/wells?pagesize=2&page=2'']"
proof -
  let ?c = "v2_client [page_one, wells_page [] []]"
  let ?rq = "prepare ?c GET (path_join (url ?c) ''wells'') [] None []"
  let ?c1 = "?c\<lparr>script := [wells_page [] []], sent := sent ?c @ [?rq],
                  links := Some (resp_links page_one)\<rparr>"
  let ?r2 = "prepare ?c1 GET (butlast (url ?c1) @ ''/wells?pagesize=2&page=2'') [] None []"
  have n: "(1::nat) = Suc 0" by simp
  have h4: "next_request ?c (path_join (url ?c) ''wells'')
              (dict_pop ''paging'' [(''paging'', AStr ''false'')]) None = Inr (?rq, [], None)"
    unfolding paging_false_option by (rule next_request_fresh) (simp_all add: links_truthy_def)
  have first: "query (Suc 0) ?c ''wells'' [(''paging'', AStr ''false'')] =
                 ((records_of (body page_one), None), ?c1)"
    by (subst query_paging_false
          [OF paging_false_option(3) lower_false paging_false_option(1) h4,
           where rp = page_one and rest = "[wells_page [] []]"]) simp_all
  have nr: "next_request ?c1 (path_join (url ?c1) ''rigs'') [] None = Inr (?r2, [], None)"
    by (rule next_request_link [where l = "resp_links page_one"]) simp_all
  have q2: "query (Suc 0) ?c1 ''rigs'' [] =
              query_loop (Suc 0) ?c1 (path_join (url ?c1) ''rigs'') [] None (AStr ''true'') []"
    by (simp add: query_def dict_pop_def)
  have st: "query_loop (Suc 0) ?c1 (path_join (url ?c1) ''rigs'') [] None (AStr ''true'') [] =
              (([], None), ?c1\<lparr>script := [], sent := sent ?c1 @ [?r2], links := None\<rparr>)"
    by (subst loop_step [OF nr, where rp = "wells_page [] []" and rest = "[]"]) simp_all
  have second: "query (Suc 0) ?c1 ''rigs'' [] =
                  (([], None), ?c1\<lparr>script := [], sent := sent ?c1 @ [?r2], links := None\<rparr>)"
    unfolding q2 st ..
  show ?thesis
    unfolding n first snd_conv second by (simp add: prepare_def path_join_def)
qed

section \<open>A bad request\<close>

text \<open>An answer with status 400 to a query of \<open>wells\<close> with the parameter \<open>county=tokens\<close>.\<close>

definition bad_request :: reply where
  "bad_request =
     \<lparr>status_code = 400,
      resp_url = ''https://di-api.drillinginfo.com/v2/direct-access/wells?county=tokens'',
      resp_text = ''Invalid parameter'', body = JObject [], resp_links = []\<rparr>"

lemma str_nat_400: "str_nat 400 = ''400''"
  by code_simp

text \<open>
  Claim C8, at a failing input. A query of the \<open>wells\<close> dataset with the parameter
  \<open>county=tokens\<close> is answered with status 400. The URL of the response contains
  \<open>tokens\<close>, in its query string, and the generator raises \<open>DAAuthException\<close> with
  the message of a failed token request, although the request went to a data endpoint.
\<close>

theorem bad_request_on_data_endpoint_raises_auth:
  "fst (query 1 (v2_client [bad_request]) ''wells'' [(''county'', AStr ''tokens'')])
     = ([], Some (DAAuthException ''Error getting token. Code: 400 Message: Invalid parameter'')) \<and>
   map req_url (sent (snd (query 1 (v2_client [bad_request]) ''wells''
                             [(''county'', AStr ''tokens'')])))
     = [''https://di-api.drillinginfo.com/v2/direct-access/wells'']"
proof -
  let ?c = "v2_client [bad_request]"
  let ?o = "[(''county'', AStr ''tokens'')]"
  let ?q = "path_join (url ?c) ''wells''"
  let ?rq = "prepare ?c GET ?q ?o None []"
  have n: "(1::nat) = Suc 0" by simp
  have q: "query (Suc 0) ?c ''wells'' ?o = query_loop (Suc 0) ?c ?q ?o None (AStr ''true'') []"
    by (simp add: query_def dict_pop_def)
  have nr: "next_request ?c ?q ?o None = Inr (?rq, ?o, None)"
    by (rule next_request_fresh) (simp_all add: links_truthy_def)
  have sn: "send (Suc 0) ?c ?rq =
              (Inl (if contains ''tokens'' (resp_url bad_request)
                    then DAAuthException (''Error getting token. Code: ''
                           @ str_nat (status_code bad_request)
                           @ '' Message: '' @ resp_text bad_request)
                    else DAQueryException (resp_text bad_request)),
               ?c\<lparr>script := [], sent := sent ?c @ [?rq]\<rparr>)"
    by (rule send_bad_request) (simp_all add: bad_request_def)
  have tk: "contains ''tokens'' (resp_url bad_request)"
    by (simp add: bad_request_def)
  show ?thesis
    unfolding n q loop_raises [OF nr sn]
    using tk by (simp add: bad_request_def str_nat_400 prepare_def path_join_def)
qed

section \<open>Headers of a \<open>DeveloperAPIv3\<close> query\<close>











section \<open>Further facts about the loop\<close>

text \<open>
  On a session without a link, a single page that carries records and no \<open>next\<close>
  link is yielded and ends the generator.
\<close>

lemma query_single_page_without_link:
  assumes "links c = None" and "script c = rp # rest" and "ok rp"
    and "records_of (body rp) \<noteq> []" and "map_of (resp_links rp) ''next'' = None"
    and "scan_options options None = Inr None"
  shows "query (Suc d) c dataset options =
           ((records_of (body rp), None),
            c\<lparr>script := rest,
              sent := sent c @
                [prepare c GET (path_join (url c) dataset) (dict_pop ''paging'' options) None []]\<rparr>)"
proof -
  have nr: "next_request c (path_join (url c) dataset) (dict_pop ''paging'' options) None =
              Inr (prepare c GET (path_join (url c) dataset) (dict_pop ''paging'' options) None [],
                   dict_pop ''paging'' options, None)"
    by (rule next_request_fresh) (simp_all add: assms(1) links_truthy_def)
  show ?thesis
    by (simp add: query_def assms(6) loop_step [OF nr assms(2) assms(3)] assms(1,4,5))
qed

text \<open>
  When the server answers the link requested again with the last page again, the
  generator yields the records of that page a second time.
\<close>

lemma final_page_yielded_twice:
  "fst (query 1 (v2_client [page_one, wells_page [[(''id'', AInt 3)]] [],
                            wells_page [[(''id'', AInt 3)]] []])
          ''wells'' [(''pagesize'', AInt 2)])
     = ([[(''id'', AInt 1)], [(''id'', AInt 2)], [(''id'', AInt 3)], [(''id'', AInt 3)]],
        Some ConnectionError)"
proof -
  let ?p2 = "wells_page [[(''id'', AInt 3)]] []"
  let ?c = "v2_client [page_one, ?p2, ?p2]"
  let ?q = "path_join (url ?c) ''wells''"
  let ?o = "[(''pagesize'', AInt 2)]"
  let ?rq = "prepare ?c GET ?q ?o None []"
  let ?c2 = "?c\<lparr>script := [?p2, ?p2], sent := sent ?c @ [?rq],
                  links := Some (resp_links page_one)\<rparr>"
  let ?r2 = "prepare ?c2 GET (butlast (url ?c2) @ ''/wells?pagesize=2&page=2'') [] None []"
  let ?c3 = "?c2\<lparr>script := [?p2], sent := sent ?c2 @ [?r2]\<rparr>"
  have n: "(1::nat) = Suc 0" by simp
  have q: "query (Suc 0) ?c ''wells'' ?o = query_loop (Suc 0) ?c ?q ?o None (AStr ''true'') []"
    by (simp add: query_def pagesize_option paging_of_def [symmetric] del: scan_options.simps)
  have nr: "next_request ?c ?q ?o None = Inr (?rq, ?o, None)"
    by (rule next_request_fresh) (simp_all add: links_truthy_def)
  have st: "query_loop (Suc 0) ?c ?q ?o None (AStr ''true'') [] =
              query_loop (Suc 0) ?c2 ?q ?o None (AStr ''true'')
                ([] @ records_of (body page_one))"
    by (subst loop_step [OF nr, where rp = page_one and rest = "[?p2, ?p2]"])
       (simp_all add: lower_true)
  have nr2: "next_request ?c2 ?q ?o None = Inr (?r2, ?o, None)"
    by (rule next_request_link [where l = "resp_links page_one"]) simp_all
  have st2: "query_loop (Suc 0) ?c2 ?q ?o None (AStr ''true'') ([] @ records_of (body page_one)) =
               query_loop (Suc 0) ?c3 ?q ?o None (AStr ''true'')
                 (([] @ records_of (body page_one)) @ records_of (body ?p2))"
    by (subst loop_step [OF nr2, where rp = ?p2 and rest = "[?p2]"])
       (simp_all add: lower_true)
  have fl: "query_loop (Suc 0) ?c3 ?q ?o None (AStr ''true'')
              (([] @ records_of (body page_one)) @ records_of (body ?p2)) =
           (((([] @ records_of (body page_one)) @ records_of (body ?p2)) @ records_of (body ?p2),
             Some ConnectionError),
            ?c3\<lparr>script := [],
              sent := sent ?c3 @
                [prepare ?c3 GET (butlast (url ?c3) @ ''/wells?pagesize=2&page=2'') [] None [],
                 prepare ?c3 GET (butlast (url ?c3) @ ''/wells?pagesize=2&page=2'') [] None []]\<rparr>)"
    by (rule stale_link_requested_again [where l = "resp_links page_one"])
       (simp_all add: lower_true)
  show ?thesis
    unfolding n q st st2 fl by simp
qed

section \<open>The chunk plan and the requests sent\<close>

text \<open>
  With a chunk plan, when every subset is answered with an empty batch, every subset of
  the plan is sent, in order, each as the \<open>in(...)\<close> filter of a request to the
  dataset.
\<close>

lemma dict_set_set: "dict_set k v (dict_set k v' kvs) = dict_set k v kvs"
  by (induction kvs) auto

lemma all_chunks_requested:
  "cs \<noteq> [] \<Longrightarrow> links c = None \<Longrightarrow> script c = replies @ rest \<Longrightarrow>
   length replies = length cs \<Longrightarrow> list_all is_empty_batch replies \<Longrightarrow>
     query_loop (Suc d) c q (dict_set field v opts) (Some (field, cs)) paging acc =
       ((acc, None),
        c\<lparr>script := rest,
          sent := sent c @
            map (\<lambda>ch. prepare c GET q
                        (dict_set field (AStr (''in('' @ str_join '','' ch @ '')'')) opts) None []) cs,
          links := None\<rparr>)"
proof (induction cs arbitrary: c replies v acc)
  case Nil
  then show ?case by simp
next
  case (Cons ch cs)
  from Cons.prems(4) obtain rp rs where rs: "replies = rp # rs" "length rs = length cs"
    by (cases replies) auto
  with Cons.prems have sc: "script c = rp # (rs @ rest)" and es: "list_all is_empty_batch rs"
    and "is_empty_batch rp"
    by simp_all
  then have e: "ok rp" "records_of (body rp) = []"
    by (simp_all add: is_empty_batch_def)
  let ?f = "AStr (''in('' @ str_join '','' ch @ '')'')"
  let ?rq = "prepare c GET q (dict_set field ?f opts) None []"
  let ?c1 = "c\<lparr>script := rs @ rest, sent := sent c @ [?rq], links := None\<rparr>"
  have nr: "next_request c q (dict_set field v opts) (Some (field, ch # cs)) =
              Inr (?rq, dict_set field ?f opts, Some (field, cs))"
    using next_request_chunk [of c q "dict_set field v opts" field ch cs] Cons.prems(2)
    by (simp add: links_truthy_def dict_set_set)
  show ?case
  proof (cases cs)
    case Nil
    with rs have r: "rs = []" by simp
    show ?thesis
      by (subst loop_step [OF nr sc e(1)]) (simp add: e(2) Nil r)
  next
    case (Cons ch' cs')
    then have p: "pending (Some (field, cs))" by simp
    have st: "query_loop (Suc d) c q (dict_set field v opts) (Some (field, ch # cs)) paging acc =
                query_loop (Suc d) ?c1 q (dict_set field ?f opts) (Some (field, cs)) paging acc"
      by (subst loop_step [OF nr sc e(1)]) (simp add: e(2) p)
    have ih: "query_loop (Suc d) ?c1 q (dict_set field ?f opts) (Some (field, cs)) paging acc =
       ((acc, None),
        ?c1\<lparr>script := rest,
          sent := sent ?c1 @
            map (\<lambda>ch. prepare ?c1 GET q
                        (dict_set field (AStr (''in('' @ str_join '','' ch @ '')'')) opts) None []) cs,
          links := None\<rparr>)"
      by (rule Cons.IH [where replies = rs]) (simp_all add: Cons rs es)
    show ?thesis
      unfolding st ih by (simp add: prepare_def)
  qed
qed

text \<open>
  Claim C6, at a failing input. The filter of three long values is split into the
  subsets \<open>[v, v]\<close> and \<open>[v]\<close>. The request for the first subset is answered with a
  page that holds a record and no \<open>next\<close> link: the generator yields the record and
  ends at line 472, which does not look at the plan. One request is sent, with the
  first two values; the second subset is never sent, though the server holds an answer
  for it, so the third value of the filter is dropped from the query.
\<close>

theorem later_subset_never_requested:
  "scan_options [(''api'', AStr long_filter)] None
     = Inr (Some (''api'', [[long_value, long_value], [long_value]])) \<and>
   fst (query 1 (v2_client [wells_page [[(''id'', AInt 1)]] [], wells_page [[(''id'', AInt 2)]] []])
          ''wells'' [(''api'', AStr long_filter)])
     = ([[(''id'', AInt 1)]], None) \<and>
   map params
     (sent (snd (query 1
        (v2_client [wells_page [[(''id'', AInt 1)]] [], wells_page [[(''id'', AInt 2)]] []])
        ''wells'' [(''api'', AStr long_filter)])))
     = [[(''api'', AStr (''in('' @ str_join '','' [long_value, long_value] @ '')''))]] \<and>
   script (snd (query 1
        (v2_client [wells_page [[(''id'', AInt 1)]] [], wells_page [[(''id'', AInt 2)]] []])
        ''wells'' [(''api'', AStr long_filter)]))
     = [wells_page [[(''id'', AInt 2)]] []]"
proof -
  let ?p1 = "wells_page [[(''id'', AInt 1)]] []"
  let ?p2 = "wells_page [[(''id'', AInt 2)]] []"
  let ?c = "v2_client [?p1, ?p2]"
  let ?o = "[(''api'', AStr long_filter)]"
  let ?q = "path_join (url ?c) ''wells''"
  let ?f1 = "AStr (''in('' @ str_join '','' [long_value, long_value] @ '')'')"
  let ?o1 = "dict_set ''api'' ?f1 ?o"
  let ?r1 = "prepare ?c GET ?q ?o1 None []"
  have n: "(1::nat) = Suc 0" by simp
  have cf: "contains ''in('' long_filter"
    unfolding long_filter_def by (rule contains_in_prefix)
  have sc: "scan_options ?o None = Inr (Some (''api'', [[long_value, long_value], [long_value]]))"
    using cf by (simp add: chunk_plan_long_filter length_long_filter del: contains.simps)
  have q: "query (Suc 0) ?c ''wells'' ?o =
             query_loop (Suc 0) ?c ?q ?o
               (Some (''api'', [[long_value, long_value], [long_value]])) (AStr ''true'') []"
    unfolding query_def sc by (simp add: dict_pop_def)
  have nr1: "next_request ?c ?q ?o (Some (''api'', [long_value, long_value] # [[long_value]]))
               = Inr (?r1, ?o1, Some (''api'', [[long_value]]))"
    by (rule next_request_chunk) (simp add: links_truthy_def)
  have st: "query_loop (Suc 0) ?c ?q ?o
              (Some (''api'', [[long_value, long_value], [long_value]])) (AStr ''true'') [] =
            (([] @ records_of (body ?p1), None), ?c\<lparr>script := [?p2], sent := sent ?c @ [?r1]\<rparr>)"
    by (subst loop_step [OF nr1, where rp = ?p1 and rest = "[?p2]"]) simp_all
  show ?thesis
    unfolding n q st using sc by (simp add: prepare_def)
qed

text \<open>
  A second way in which values are lost: \<open>in_\<close> writes the values as they are, and the
  regular expression of line 434 captures up to the first closing parenthesis. With 400
  values of which the first is \<open>A)\<close>, the filter has 2400 characters and the plan is the
  single subset \<open>[A]\<close>: the other 399 values are dropped.
\<close>

definition paren_values :: "string list" where
  "paren_values = ''A)'' # replicate 399 ''12345''"

lemma str_join_Cons: "ys \<noteq> [] \<Longrightarrow> str_join sep (a # ys) = a @ sep @ str_join sep ys"
  by (cases ys) simp_all

definition paren_filter :: string where
  "paren_filter = ''in('' @ str_join '','' paren_values @ '')''"

lemma closing_parenthesis_cuts_plan:
  "in_items (PList (map AStr paren_values)) = Inr paren_filter \<and>
   length paren_filter = 2400 \<and>
   scan_options [(''api'', AStr paren_filter)] None = Inr (Some (''api'', [[''A'']]))"
proof -
  let ?rest = "'','' @ str_join '','' (replicate 399 ''12345'') @ '')''"
  have ii: "in_items (PList (map AStr paren_values)) = Inr paren_filter"
    by (simp add: py_str_AStr paren_filter_def)
  have ln: "length paren_filter = 2400"
    by (simp add: paren_filter_def length_str_join paren_values_def sum_list_replicate)
  have sj: "str_join '','' paren_values = ''A)'' @ '','' @ str_join '','' (replicate 399 ''12345'')"
    unfolding paren_values_def by (rule str_join_Cons) simp
  have fm: "paren_filter = ''in('' @ ''A'' @ '')'' @ ?rest"
    unfolding paren_filter_def sj by simp
  have g: "in_group paren_filter = Some ''A''"
    unfolding fm by (rule in_group_prefix) simp_all
  have ch: "chunks [''A''] 1950 = Inr [[''A'']]"
    using chunks_from_all [of "[''A'']" 1950] by (simp add: chunks_def)
  have cp: "chunk_plan paren_filter = Inr [[''A'']]"
    unfolding chunk_plan_def g by (simp add: chunksize_of_def ch)
  have cf: "contains ''in('' paren_filter"
    unfolding paren_filter_def by (rule contains_in_prefix)
  have sc: "scan_options [(''api'', AStr paren_filter)] None = Inr (Some (''api'', [[''A'']]))"
    using cf ln by (simp add: cp del: contains.simps)
  from ii ln sc show ?thesis by (intro conjI)
qed

end
